theory Spec2Isabelle
  imports Complex_Main
begin

section \<open>Python values, exceptions and array arithmetic\<close>

text \<open>
  The program is \<^verbatim>\<open>src/pygam.py\<close>: a logistic generalised additive model fitted by
  penalised iteratively reweighted least squares (PIRLS) on a B-spline basis.
  Numbers are modelled in exact real arithmetic. Where the source divides by a quantity
  that can be zero, or takes a root of a quantity that can be negative, the value is an
  \<open>npfloat\<close>: a real number or one of the three special values that numpy produces
  instead of raising. Every place where the source raises is a branch \<open>Inl e\<close>.
\<close>

datatype py_error =
  AssertionError | IndexError | ValueError | TypeError | AttributeError | RuntimeError
  | ShapeMismatch

datatype npfloat = Fin real | PInf | NInf | NaN

text \<open>numpy's \<^verbatim>\<open>a / b\<close> on float64 scalars: no exception, a special value when \<open>b = 0\<close>.\<close>

definition np_div :: "real \<Rightarrow> real \<Rightarrow> npfloat" where
  "np_div a b = (if b = 0 then (if a = 0 then NaN else if 0 < a then PInf else NInf)
                 else Fin (a / b))"

fun np_plus :: "npfloat \<Rightarrow> npfloat \<Rightarrow> npfloat" where
  "np_plus NaN y = NaN"
| "np_plus (Fin a) (Fin b) = Fin (a + b)"
| "np_plus (Fin a) y = y"
| "np_plus PInf (Fin b) = PInf"
| "np_plus PInf PInf = PInf"
| "np_plus PInf y = NaN"
| "np_plus NInf (Fin b) = NInf"
| "np_plus NInf NInf = NInf"
| "np_plus NInf y = NaN"

definition np_signed_inf :: "real \<Rightarrow> npfloat" where
  "np_signed_inf a = (if a = 0 then NaN else if 0 < a then PInf else NInf)"

fun np_times :: "npfloat \<Rightarrow> npfloat \<Rightarrow> npfloat" where
  "np_times NaN y = NaN"
| "np_times (Fin a) (Fin b) = Fin (a * b)"
| "np_times (Fin a) PInf = np_signed_inf a"
| "np_times (Fin a) NInf = np_signed_inf (- a)"
| "np_times (Fin a) NaN = NaN"
| "np_times PInf (Fin b) = np_signed_inf b"
| "np_times PInf PInf = PInf"
| "np_times PInf NInf = NInf"
| "np_times PInf NaN = NaN"
| "np_times NInf (Fin b) = np_signed_inf (- b)"
| "np_times NInf PInf = NInf"
| "np_times NInf NInf = PInf"
| "np_times NInf NaN = NaN"

fun np_uminus :: "npfloat \<Rightarrow> npfloat" where
  "np_uminus (Fin a) = Fin (- a)"
| "np_uminus PInf = NInf"
| "np_uminus NInf = PInf"
| "np_uminus NaN = NaN"

definition np_minus :: "npfloat \<Rightarrow> npfloat \<Rightarrow> npfloat" where
  "np_minus x y = np_plus x (np_uminus y)"

fun np_divide :: "npfloat \<Rightarrow> npfloat \<Rightarrow> npfloat" where
  "np_divide NaN y = NaN"
| "np_divide (Fin a) (Fin b) = np_div a b"
| "np_divide (Fin a) PInf = Fin 0"
| "np_divide (Fin a) NInf = Fin 0"
| "np_divide (Fin a) NaN = NaN"
| "np_divide PInf (Fin b) = (if b < 0 then NInf else PInf)"
| "np_divide PInf y = NaN"
| "np_divide NInf (Fin b) = (if b < 0 then PInf else NInf)"
| "np_divide NInf y = NaN"

text \<open>\<^verbatim>\<open>np.log\<close> and \<^verbatim>\<open>v ** 0.5\<close>: no exception outside the domain.\<close>

definition np_log :: "real \<Rightarrow> npfloat" where
  "np_log p = (if 0 < p then Fin (ln p) else if p = 0 then NInf else NaN)"

fun np_sqrt :: "npfloat \<Rightarrow> npfloat" where
  "np_sqrt (Fin r) = (if r < 0 then NaN else Fin (sqrt r))"
| "np_sqrt PInf = PInf"
| "np_sqrt NInf = NaN"
| "np_sqrt NaN = NaN"

text \<open>\<^verbatim>\<open>a < t\<close> for a float64 \<open>a\<close> and a finite \<open>t\<close>: every comparison with NaN is false.\<close>

fun np_less :: "npfloat \<Rightarrow> real \<Rightarrow> bool" where
  "np_less (Fin a) t = (a < t)"
| "np_less NInf t = True"
| "np_less PInf t = False"
| "np_less NaN t = False"

definition np_sum :: "npfloat list \<Rightarrow> npfloat" where
  "np_sum xs = foldr np_plus xs (Fin 0)"

text \<open>Running a list of fallible computations: the first exception wins.\<close>

fun sequence :: "(py_error + 'a) list \<Rightarrow> py_error + 'a list" where
  "sequence [] = Inr []"
| "sequence (Inl e # rs) = Inl e"
| "sequence (Inr v # rs) = (case sequence rs of Inl e \<Rightarrow> Inl e | Inr vs \<Rightarrow> Inr (v # vs))"

text \<open>A Python slice \<^verbatim>\<open>xs[i:j]\<close> with \<open>0 \<le> i \<le> j\<close>.\<close>

definition py_slice :: "'a list \<Rightarrow> nat \<Rightarrow> nat \<Rightarrow> 'a list" where
  "py_slice xs i j = take (j - i) (drop i xs)"

section \<open>Spline basis (\<^verbatim>\<open>b_spline_basis\<close>)\<close>

text \<open>
  \<^verbatim>\<open>b_spline_basis(x, boundary_knots, order)\<close> works on a column \<open>x\<close> of samples; every
  operation in it is elementwise along the rows, so the matrix is modelled row by row:
  \<open>b_spline_row\<close> computes the row of one sample value.
\<close>

definition np_min :: "real list \<Rightarrow> real" where
  "np_min ks = fold min (tl ks) (hd ks)"

definition np_max :: "real list \<Rightarrow> real" where
  "np_max ks = fold max (tl ks) (hd ks)"

text \<open>Line 27: \<^verbatim>\<open>np.r_[min * ones(order-1), sort(knots), max * ones(order-1)]\<close>.\<close>

definition aug_knots :: "real list \<Rightarrow> nat \<Rightarrow> real list" where
  "aug_knots ks order =
     replicate (order - 1) (np_min ks) @ sort ks @ replicate (order - 1) (np_max ks)"

text \<open>Line 29: the indicator (Haar) bases \<^verbatim>\<open>(x >= aug[:-1]) * (x < aug[1:])\<close>.\<close>

definition haar_bases :: "real \<Rightarrow> real list \<Rightarrow> real list" where
  "haar_bases x aug =
     map2 (\<lambda>a b. (if a \<le> x then 1 else 0) * (if x < b then 1 else 0)) (butlast aug) (tl aug)"

text \<open>
  Lines 30 and 31: the two boundary assignments. A row with \<open>x \<ge> aug[-1]\<close> gets a 1 in
  column \<open>-order\<close> (that is \<open>ncols - order\<close>), a row with \<open>x < aug[0]\<close> gets a 1 in column
  \<open>order\<close>. The column index is an integer, which numpy checks against the width of the
  matrix before it looks at the rows that the mask selects: line 30 raises IndexError
  when \<open>ncols < order\<close> and line 31 when \<open>ncols \<le> order\<close>, for every sample.
\<close>

definition haar_init :: "real \<Rightarrow> real list \<Rightarrow> nat \<Rightarrow> py_error + real list" where
  "haar_init x aug order =
     (let b0 = haar_bases x aug; n = length b0 in
      if n < order then Inl IndexError
      else
        let b1 = (if last aug \<le> x then b0[n - order := 1] else b0) in
        if n \<le> order then Inl IndexError
        else Inr (if x < hd aug then b1[order := 1] else b1))"

text \<open>
  Lines 38 to 47, one pass of the loop for level \<open>m\<close> with the already decremented
  \<open>maxi\<close>. The masked entries are exactly those whose denominator is zero; the source
  computes the quotient there and overwrites it with 0.
\<close>

definition blend :: "real \<Rightarrow> real list \<Rightarrow> real list \<Rightarrow> real list \<Rightarrow> real list" where
  "blend x lo hi bs =
     map (\<lambda>(a, b, c). if b = a then 0 else ((x - a) / (b - a)) * c) (zip lo (zip hi bs))"

definition blend_right :: "real \<Rightarrow> real list \<Rightarrow> real list \<Rightarrow> real list \<Rightarrow> real list" where
  "blend_right x hi lo bs =
     map (\<lambda>(b, a, c). if b = a then 0 else ((b - x) / (b - a)) * c) (zip hi (zip lo bs))"

definition de_boor_step :: "real \<Rightarrow> real list \<Rightarrow> nat \<Rightarrow> nat \<Rightarrow> real list \<Rightarrow> real list" where
  "de_boor_step x aug m maxi bases =
     (let left = blend x (take maxi aug) (py_slice aug (m - 1) (maxi + m - 1)) (take maxi bases);
          right = blend_right x (py_slice aug m (maxi + m)) (py_slice aug 1 (maxi + 1))
                    (py_slice bases 1 (maxi + 1))
      in map2 (+) left right)"

text \<open>
  Lines 33 to 47: \<open>maxi\<close> starts at \<open>len(aug) - 1\<close> and is decremented at the start of
  every pass \<open>m = 2, \<dots>, order\<close>. For a non-empty knot list \<open>len(aug) \<ge> order\<close>, so \<open>maxi\<close>
  never becomes negative and is a natural number here.
\<close>

fun de_boor_loop :: "real \<Rightarrow> real list \<Rightarrow> nat list \<Rightarrow> nat \<Rightarrow> real list \<Rightarrow> real list" where
  "de_boor_loop x aug [] maxi bases = bases"
| "de_boor_loop x aug (m # ms) maxi bases =
     de_boor_loop x aug ms (maxi - 1) (de_boor_step x aug m (maxi - 1) bases)"

definition b_spline_row :: "real \<Rightarrow> real list \<Rightarrow> nat \<Rightarrow> py_error + real list" where
  "b_spline_row x ks order =
     (if ks = [] \<or> order = 0 then Inl ValueError
      else
        let aug = aug_knots ks order in
        case haar_init x aug order of
          Inl e \<Rightarrow> Inl e
        | Inr bases \<Rightarrow> Inr (de_boor_loop x aug [2..<order + 1] (length aug - 1) bases))"

text \<open>
  The whole matrix: one row per sample. An empty knot list fails in \<^verbatim>\<open>min()\<close>, a zero
  order in \<^verbatim>\<open>np.ones(-1)\<close> and a column index outside the matrix in lines 30 and 31,
  whatever the samples are and also when there are none.
\<close>

definition b_spline_basis :: "real list \<Rightarrow> real list \<Rightarrow> nat \<Rightarrow> py_error + real list list" where
  "b_spline_basis x ks order =
     (if ks = [] \<or> order = 0 then Inl ValueError
      else if length (aug_knots ks order) - 1 \<le> order then Inl IndexError
      else sequence (map (\<lambda>xi. b_spline_row xi ks order) x))"

section \<open>Dense matrices\<close>

text \<open>
  A matrix is the list of its rows. The sparse formats of scipy change the storage, not
  the values, and are not modelled.
\<close>

type_synonym matrix = "real list list"

definition shape1 :: "matrix \<Rightarrow> nat" where
  "shape1 M = (case M of [] \<Rightarrow> 0 | r # _ \<Rightarrow> length r)"

definition dotp :: "real list \<Rightarrow> real list \<Rightarrow> real" where
  "dotp a b = sum_list (map2 (*) a b)"

definition mat_T :: "nat \<Rightarrow> matrix \<Rightarrow> matrix" where
  "mat_T k M = map (\<lambda>j. map (\<lambda>r. r ! j) M) [0..<k]"

text \<open>\<open>mat_mul_T A B\<close> is the product of \<open>A\<close> with the transpose of \<open>B\<close>.\<close>

definition mat_mul_T :: "matrix \<Rightarrow> matrix \<Rightarrow> matrix" where
  "mat_mul_T A B = map (\<lambda>r. map (dotp r) B) A"

definition mat_mul :: "matrix \<Rightarrow> matrix \<Rightarrow> matrix" where
  "mat_mul A B = mat_mul_T A (mat_T (shape1 B) B)"

definition mat_vec :: "matrix \<Rightarrow> real list \<Rightarrow> real list" where
  "mat_vec A v = map (\<lambda>r. dotp r v) A"

definition mat_add :: "matrix \<Rightarrow> matrix \<Rightarrow> matrix" where
  "mat_add A B = map2 (map2 (+)) A B"

definition mat_diagonal :: "matrix \<Rightarrow> real list" where
  "mat_diagonal M = map (\<lambda>i. M ! i ! i) [0..<length M]"

text \<open>\<^verbatim>\<open>sp.sparse.diags(v)\<close>: the square matrix with \<open>v\<close> on its diagonal.\<close>

definition diags :: "real list \<Rightarrow> matrix" where
  "diags v = map (\<lambda>i. (replicate (length v) 0)[i := v ! i]) [0..<length v]"

definition eye :: "nat \<Rightarrow> matrix" where
  "eye n = diags (replicate n 1)"

definition norm2 :: "real list \<Rightarrow> real" where
  "norm2 v = sqrt (sum_list (map (\<lambda>x. x * x) v))"

section \<open>The model object (\<^verbatim>\<open>LogisticGAM\<close>)\<close>

text \<open>
  Python attribute and method names that end in an underscore (\<^verbatim>\<open>b_\<close>, \<^verbatim>\<open>knots_\<close>,
  \<^verbatim>\<open>pirls_\<close>) are written with a prime instead (\<open>b'\<close>, \<open>knots'\<close>, \<open>pirls'\<close>).

  The three arguments that \<^verbatim>\<open>__init__\<close> tests with \<^verbatim>\<open>type(v) is int\<close> are Python values;
  \<^verbatim>\<open>lam\<close> and \<^verbatim>\<open>tol\<close> are real numbers and \<^verbatim>\<open>diff_order\<close> is an integer, of any sign.
\<close>

datatype pyval = PyInt int | PyLong int | PyFloat real | PyBool bool | PyStr string | PyNone

text \<open>Python 2 \<^verbatim>\<open>v >= c\<close> for an integer literal \<open>c\<close>.\<close>

fun py_ge :: "pyval \<Rightarrow> int \<Rightarrow> bool" where
  "py_ge (PyInt n) c = (c \<le> n)"
| "py_ge (PyLong n) c = (c \<le> n)"
| "py_ge (PyFloat r) c = (of_int c \<le> r)"
| "py_ge (PyBool b) c = (c \<le> (if b then 1 else 0))"
| "py_ge (PyStr s) c = True"
| "py_ge PyNone c = False"

fun type_is_int :: "pyval \<Rightarrow> bool" where
  "type_is_int (PyInt n) = True"
| "type_is_int v = False"

fun the_int :: "pyval \<Rightarrow> int" where
  "the_int (PyInt n) = n"
| "the_int (PyLong n) = n"
| "the_int v = 0"

text \<open>
  The coefficient array \<^verbatim>\<open>b_\<close> has one of two shapes: \<^verbatim>\<open>np.zeros((k, 1))\<close> is a column of
  shape \<open>(k, 1)\<close>, the result of \<^verbatim>\<open>inner.dot(BW).dot(pseudo_data)\<close> is flat, of shape \<open>(k,)\<close>.
\<close>

datatype coef = Col "real list" | Vec "real list"

fun coef_vals :: "coef \<Rightarrow> real list" where
  "coef_vals (Col v) = v"
| "coef_vals (Vec v) = v"

record LogisticGAM =
  n_iter :: int
  lam :: real
  tol :: real
  n_knots :: int
  diff_order :: int
  spline_order :: int
  b' :: "coef option"
  knots' :: "real list list option"
  n_bases' :: "nat list"
  edof' :: "npfloat option"
  rse' :: "npfloat option"
  se' :: "npfloat list option"
  aic' :: "npfloat option"
  aicc' :: "npfloat option"
  acc :: "npfloat list"
  nll :: "npfloat list"
  diffs :: "npfloat list"

text \<open>Lines 59 to 81. The assertions are the only checks.\<close>

definition LogisticGAM_init ::
  "real \<Rightarrow> pyval \<Rightarrow> real \<Rightarrow> pyval \<Rightarrow> int \<Rightarrow> pyval \<Rightarrow> py_error + LogisticGAM" where
  "LogisticGAM_init lam0 n_iter0 tol0 n_knots0 diff_order0 spline_order0 =
     (if \<not> (py_ge n_iter0 1 \<and> type_is_int n_iter0) then Inl AssertionError
      else if \<not> (py_ge n_knots0 0 \<and> type_is_int n_knots0) then Inl AssertionError
      else if \<not> (py_ge spline_order0 1 \<and> type_is_int spline_order0) then Inl AssertionError
      else Inr \<lparr> n_iter = the_int n_iter0, lam = lam0, tol = tol0, n_knots = the_int n_knots0,
                 diff_order = diff_order0, spline_order = the_int spline_order0,
                 b' = None, knots' = None, n_bases' = [],
                 edof' = None, rse' = None, se' = None, aic' = None, aicc' = None,
                 acc = [], nll = [], diffs = [] \<rparr>)"

text \<open>
  The library functions the program calls and the theory does not define: numpy's
  percentile, scipy's sparse inverse (\<open>None\<close> when it raises on a singular matrix) and the
  permutation drawn by \<^verbatim>\<open>np.random.shuffle\<close>.
\<close>

record env =
  np_percentile :: "real list \<Rightarrow> real \<Rightarrow> real"
  sparse_inv :: "matrix \<Rightarrow> matrix option"
  np_shuffle :: "nat list \<Rightarrow> nat list"

subsection \<open>Knots (\<^verbatim>\<open>gen_knots\<close>)\<close>

definition linspace_0_100 :: "nat \<Rightarrow> real list" where
  "linspace_0_100 num = map (\<lambda>i. real i * (100 / real (num - 1))) [0..<num]"

definition gen_knots :: "env \<Rightarrow> real list \<Rightarrow> nat \<Rightarrow> bool \<Rightarrow> real list" where
  "gen_knots E data n add_boundaries =
     (let knots = map (np_percentile E data) (linspace_0_100 (n + 2)) in
      if add_boundaries then knots else butlast (tl knots))"

subsection \<open>Basis matrix (\<^verbatim>\<open>bases_\<close>)\<close>

text \<open>
  The number of columns of the matrix that \<^verbatim>\<open>b_spline_basis\<close> returns: \<open>len(aug) - 1\<close>
  columns of indicators, one column fewer after every pass of the recursion.
\<close>

definition spline_shape1 :: "real list \<Rightarrow> nat \<Rightarrow> nat" where
  "spline_shape1 ks order = length (aug_knots ks order) - order"

text \<open>
  Lines 129 to 133: the loop over \<^verbatim>\<open>zip(X.T, self.knots_)\<close>. It carries the list of blocks
  and \<^verbatim>\<open>self.n_bases_\<close>; when a block raises, the widths appended so far stay.
\<close>

fun bases_loop ::
  "(real list \<times> real list) list \<Rightarrow> nat \<Rightarrow> matrix list \<Rightarrow> nat list
     \<Rightarrow> (py_error + matrix list) \<times> nat list" where
  "bases_loop [] order blocks nb = (Inr blocks, nb)"
| "bases_loop ((x, ks) # rest) order blocks nb =
     (case b_spline_basis x ks order of
        Inl e \<Rightarrow> (Inl e, nb)
      | Inr blk \<Rightarrow> bases_loop rest order (blocks @ [blk]) (nb @ [spline_shape1 ks order]))"

definition hstack :: "nat \<Rightarrow> matrix list \<Rightarrow> matrix" where
  "hstack n blocks = map (\<lambda>i. concat (map (\<lambda>blk. blk ! i) blocks)) [0..<n]"

definition bases' :: "LogisticGAM \<Rightarrow> matrix \<Rightarrow> (py_error + matrix) \<times> LogisticGAM" where
  "bases' s X =
     (let s1 = s\<lparr>n_bases' := [1]\<rparr> in
      case knots' s of
        None \<Rightarrow> (Inl TypeError, s1)
      | Some ks \<Rightarrow>
          (case bases_loop (zip (mat_T (shape1 X) X) ks) (nat (spline_order s))
                  [replicate (length X) [1]] [1] of
             (Inl e, nb) \<Rightarrow> (Inl e, s1\<lparr>n_bases' := nb\<rparr>)
           | (Inr blocks, nb) \<Rightarrow> (Inr (hstack (length X) blocks), s1\<lparr>n_bases' := nb\<rparr>)))"

subsection \<open>Penalty matrix (\<^verbatim>\<open>proto_P_\<close>, \<^verbatim>\<open>P_\<close>)\<close>

fun diff_row :: "real list \<Rightarrow> real list" where
  "diff_row (a # b # xs) = (b - a) # diff_row (b # xs)"
| "diff_row xs = []"

text \<open>\<^verbatim>\<open>np.diff(a, n=d)\<close> along the last axis; a negative \<open>d\<close> raises.\<close>

definition np_diff :: "matrix \<Rightarrow> int \<Rightarrow> py_error + matrix" where
  "np_diff a d = (if d < 0 then Inl ValueError else Inr (map (diff_row ^^ nat d) a))"

definition proto_P' :: "LogisticGAM \<Rightarrow> nat \<Rightarrow> py_error + matrix" where
  "proto_P' s n =
     (if n = 1 then Inr [[0]]
      else case np_diff (eye n) (diff_order s) of
             Inl e \<Rightarrow> Inl e
           | Inr D \<Rightarrow> Inr (mat_mul_T D D))"

definition lambdas :: "LogisticGAM \<Rightarrow> real list" where
  "lambdas s = map (\<lambda>one. one * lam s) (replicate (length (n_bases' s)) 1)"

text \<open>\<^verbatim>\<open>sp.sparse.block_diag\<close> of square blocks: every row is padded with zeros.\<close>

fun block_diag_rows :: "nat \<Rightarrow> nat \<Rightarrow> matrix list \<Rightarrow> matrix" where
  "block_diag_rows off tot [] = []"
| "block_diag_rows off tot (M # Ms) =
     map (\<lambda>r. replicate off 0 @ r @ replicate (tot - off - length M) 0) M
     @ block_diag_rows (off + length M) tot Ms"

definition block_diag :: "matrix list \<Rightarrow> matrix" where
  "block_diag Ms = block_diag_rows 0 (sum_list (map length Ms)) Ms"

definition mat_scale :: "real \<Rightarrow> matrix \<Rightarrow> matrix" where
  "mat_scale c M = map (map (\<lambda>v. v * c)) M"

definition P' :: "LogisticGAM \<Rightarrow> py_error + matrix" where
  "P' s =
     (case sequence (map (proto_P' s) (n_bases' s)) of
        Inl e \<Rightarrow> Inl e
      | Inr Ps \<Rightarrow>
          (let P_matrix = block_diag (map (\<lambda>(l, P). mat_scale l P) (zip (lambdas s) Ps))
           in case b' s of
                None \<Rightarrow> Inl TypeError
              | Some c \<Rightarrow>
                  (if length (coef_vals c) \<noteq> length P_matrix then Inl ValueError
                   else Inr (mat_add P_matrix
                               (diags (map (\<lambda>one. one * (1 / 10 ^ 7))
                                           (replicate (length (coef_vals c)) 1)))))))"

subsection \<open>Prediction (\<^verbatim>\<open>proba_\<close>, \<^verbatim>\<open>log_odds_\<close>, \<^verbatim>\<open>predict_proba\<close>, \<^verbatim>\<open>predict\<close>)\<close>

definition proba' :: "real \<Rightarrow> real" where
  "proba' log_odds = 1 / (1 + exp (- log_odds))"

text \<open>\<^verbatim>\<open>bases.dot(b_).squeeze()\<close>: the product raises when the dimensions differ.\<close>

definition bases_dot :: "matrix \<Rightarrow> coef option \<Rightarrow> py_error + real list" where
  "bases_dot B c =
     (case c of
        None \<Rightarrow> Inl TypeError
      | Some b \<Rightarrow> (if shape1 B \<noteq> length (coef_vals b) then Inl ValueError
                   else Inr (mat_vec B (coef_vals b))))"

definition log_odds' ::
  "LogisticGAM \<Rightarrow> matrix \<Rightarrow> matrix option \<Rightarrow> (py_error + real list) \<times> LogisticGAM" where
  "log_odds' s X bases =
     (case bases of
        Some B \<Rightarrow> (bases_dot B (b' s), s)
      | None \<Rightarrow> (case bases' s X of
                    (Inl e, s1) \<Rightarrow> (Inl e, s1)
                  | (Inr B, s1) \<Rightarrow> (bases_dot B (b' s1), s1)))"

definition predict_proba :: "LogisticGAM \<Rightarrow> matrix \<Rightarrow> (py_error + real list) \<times> LogisticGAM" where
  "predict_proba s X =
     (case log_odds' s X None of
        (Inl e, s1) \<Rightarrow> (Inl e, s1)
      | (Inr lo, s1) \<Rightarrow> (Inr (map proba' lo), s1))"

definition predict :: "LogisticGAM \<Rightarrow> matrix \<Rightarrow> (py_error + bool list) \<times> LogisticGAM" where
  "predict s X =
     (case predict_proba s X of
        (Inl e, s1) \<Rightarrow> (Inl e, s1)
      | (Inr p, s1) \<Rightarrow> (Inr (map (\<lambda>v. 1 / 2 < v) p), s1))"

subsection \<open>Iteration quantities\<close>

text \<open>
  An elementwise operation on two flat arrays pairs their entries; an array of length 1
  (or a zero-dimensional one) is broadcast against the other, and any other difference of
  the lengths raises.
\<close>

definition np_compatible :: "real list \<Rightarrow> real list \<Rightarrow> bool" where
  "np_compatible a b = (length a = length b \<or> length a = 1 \<or> length b = 1)"

definition np_zip :: "real list \<Rightarrow> real list \<Rightarrow> (real \<times> real) list" where
  "np_zip a b =
     (if length a = length b then zip a b
      else if length a = 1 then zip (replicate (length b) (hd a)) b
      else zip a (replicate (length a) (hd b)))"

text \<open>Line 119: the mean of \<^verbatim>\<open>(proba > 0.5).astype(int) == y\<close>.\<close>

definition accuracy' :: "real list \<Rightarrow> real list \<Rightarrow> npfloat" where
  "accuracy' y proba =
     np_div (real (length (filter (\<lambda>(p, t). (if 1 / 2 < p then 1 else 0) = t) (np_zip proba y))))
            (real (length (np_zip proba y)))"

text \<open>
  Line 165. The quotient is a real division: on the path through \<^verbatim>\<open>pirls_\<close> the divisor
  is \<open>p (1 - p)\<close> for a value \<open>p\<close> of \<open>proba'\<close>, which is never zero (lemma
  \<open>proba_weight_nonzero\<close> below).
\<close>

definition pseudo_data' :: "real list \<Rightarrow> real list \<Rightarrow> real list \<Rightarrow> real list" where
  "pseudo_data' y log_odds proba =
     map (\<lambda>(l, q). l + q)
         (np_zip log_odds (map (\<lambda>(t, p). (t - p) / (p * (1 - p))) (np_zip y proba)))"

text \<open>
  Line 168. For a single sample \<^verbatim>\<open>squeeze()\<close> has made \<^verbatim>\<open>proba\<close> a zero-dimensional
  array, on which \<^verbatim>\<open>sp.sparse.diags\<close> raises (\<^verbatim>\<open>len()\<close> of an unsized object).
\<close>

definition weights' :: "real list \<Rightarrow> py_error + matrix" where
  "weights' proba =
     (if length proba = 1 then Inl TypeError
      else Inr (diags (map (\<lambda>p. p * (1 - p)) proba)))"

text \<open>Line 261, with \<^verbatim>\<open>proba\<close> given.\<close>

definition loglik :: "real list \<Rightarrow> real list \<Rightarrow> npfloat" where
  "loglik y proba =
     np_sum (map (\<lambda>(t, p). np_plus (np_times (Fin t) (np_log p))
                                    (np_times (Fin (1 - t)) (np_log (1 - p))))
                 (np_zip y proba))"

definition loglikelihood' ::
  "LogisticGAM \<Rightarrow> matrix \<Rightarrow> real list \<Rightarrow> real list option
     \<Rightarrow> (py_error + npfloat) \<times> LogisticGAM" where
  "loglikelihood' s X y proba =
     (case proba of
        Some p \<Rightarrow> (Inr (loglik y p), s)
      | None \<Rightarrow> (case predict_proba s X of
                    (Inl e, s1) \<Rightarrow> (Inl e, s1)
                  | (Inr p, s1) \<Rightarrow> (Inr (loglik y p), s1)))"

text \<open>
  Line 186. With \<open>diff\<close> in line 197: \<^verbatim>\<open>self.b_ - b_new\<close> is taken between numpy arrays. A
  column of shape \<open>(k, 1)\<close> minus a flat array of shape \<open>(j,)\<close> broadcasts to the \<open>k \<times> j\<close>
  matrix of all pairwise differences, and \<^verbatim>\<open>np.linalg.norm\<close> of a matrix is the
  Frobenius norm, the root of the sum of the squares of all its entries. Two flat arrays
  are subtracted elementwise; arrays of different lengths broadcast only when one of
  them has length 1.
\<close>

definition saturated :: "real list \<Rightarrow> bool" where
  "saturated proba = (list_ex (\<lambda>p. p = 0) proba \<or> list_ex (\<lambda>p. p = 1) proba)"

fun np_sub :: "coef \<Rightarrow> real list \<Rightarrow> py_error + real list" where
  "np_sub (Col a) b = Inr (concat (map (\<lambda>ai. map (\<lambda>bj. ai - bj) b) a))"
| "np_sub (Vec a) b =
     (if length a = length b then Inr (map2 (-) a b)
      else if length a = 1 then Inr (map (\<lambda>bj. hd a - bj) b)
      else if length b = 1 then Inr (map (\<lambda>ai. ai - hd b) a)
      else Inl ValueError)"

definition rel_change :: "coef \<Rightarrow> real list \<Rightarrow> py_error + npfloat" where
  "rel_change b_old b_new =
     (case np_sub b_old b_new of
        Inl e \<Rightarrow> Inl e
      | Inr d \<Rightarrow> Inr (np_div (norm2 d) (norm2 b_new)))"

subsection \<open>Diagnostics (\<^verbatim>\<open>estimate_*\<close>)\<close>

text \<open>Lines 219 to 224; \<^verbatim>\<open>np.float(size)/max_\<close> is a float64 division.\<close>

definition estimate_edof' :: "env \<Rightarrow> matrix \<Rightarrow> matrix \<Rightarrow> matrix \<Rightarrow> npfloat" where
  "estimate_edof' E bases inner BW =
     (let size = length bases;
          max' = min 5000 size;
          scale = np_div (real size) (real max');
          idxs = take max' (np_shuffle E [0..<size]);
          rows = map (\<lambda>i. mat_mul bases inner ! i) idxs;
          cols = map (\<lambda>i. map (\<lambda>r. r ! i) BW) idxs
      in np_times scale (Fin (sum_list (mat_diagonal (mat_mul_T rows cols)))))"

text \<open>Line 230: \<^verbatim>\<open>norm(W.sqrt().dot(y - proba))**2 / (y.shape[0] - self.edof_)\<close>.\<close>

definition estimate_rse' ::
  "LogisticGAM \<Rightarrow> real list \<Rightarrow> real list \<Rightarrow> matrix \<Rightarrow> py_error + npfloat" where
  "estimate_rse' s y proba W =
     (case edof' s of
        None \<Rightarrow> Inl TypeError
      | Some e \<Rightarrow>
          Inr (np_divide (Fin ((norm2 (mat_vec (map (map sqrt) W)
                                               (map (\<lambda>(t, p). t - p) (np_zip y proba))))\<^sup>2))
                         (np_minus (Fin (real (length y))) e)))"

text \<open>
  Line 236. \<^verbatim>\<open>rse_\<close> is not among the attributes that \<^verbatim>\<open>__init__\<close> creates, so reading it
  before the first convergence raises AttributeError.
\<close>

definition estimate_se' ::
  "LogisticGAM \<Rightarrow> matrix \<Rightarrow> matrix \<Rightarrow> matrix \<Rightarrow> py_error + npfloat list" where
  "estimate_se' s bases inner BW =
     (case rse' s of
        None \<Rightarrow> Inl AttributeError
      | Some r \<Rightarrow>
          Inr (map (\<lambda>d. np_sqrt (np_times (Fin d) r))
                   (mat_diagonal (mat_mul (mat_mul (mat_mul inner BW) bases) inner))))"

text \<open>Line 267: \<^verbatim>\<open>-2*self.loglikelihood_(X, y, proba) + 2*self.edof_\<close>.\<close>

definition estimate_AIC' ::
  "LogisticGAM \<Rightarrow> matrix \<Rightarrow> real list \<Rightarrow> real list option
     \<Rightarrow> (py_error + npfloat) \<times> LogisticGAM" where
  "estimate_AIC' s X y proba =
     (case loglikelihood' s X y proba of
        (Inl e, s1) \<Rightarrow> (Inl e, s1)
      | (Inr ll, s1) \<Rightarrow>
          (case edof' s1 of
             None \<Rightarrow> (Inl TypeError, s1)
           | Some e \<Rightarrow> (Inr (np_plus (np_times (Fin (- 2)) ll) (np_times (Fin 2) e)), s1)))"

text \<open>
  Lines 273 to 275. The quotient
  \<^verbatim>\<open>2*(self.edof_ + 1)*(self.edof_ + 2)/(y.shape[0] - self.edof_ -2)\<close> is computed on
  float64 values whatever the denominator is.
\<close>

definition aicc_correction :: "npfloat \<Rightarrow> nat \<Rightarrow> npfloat" where
  "aicc_correction e n =
     np_divide (np_times (np_times (Fin 2) (np_plus e (Fin 1))) (np_plus e (Fin 2)))
               (np_minus (np_minus (Fin (real n)) e) (Fin 2))"

definition estimate_AICc' ::
  "LogisticGAM \<Rightarrow> matrix \<Rightarrow> real list \<Rightarrow> real list option
     \<Rightarrow> (py_error + npfloat) \<times> LogisticGAM" where
  "estimate_AICc' s X y proba =
     (case (case aic' s of
              Some a \<Rightarrow> (Inr a, s)
            | None \<Rightarrow> (case estimate_AIC' s X y proba of
                          (Inl e, s1) \<Rightarrow> (Inl e, s1)
                        | (Inr a, s1) \<Rightarrow> (Inr a, s1\<lparr>aic' := Some a\<rparr>))) of
        (Inl e, s2) \<Rightarrow> (Inl e, s2)
      | (Inr a, s2) \<Rightarrow>
          (case edof' s2 of
             None \<Rightarrow> (Inl TypeError, s2)
           | Some e \<Rightarrow> (Inr (np_plus a (aicc_correction e (length y))), s2)))"

subsection \<open>The fitting loop (\<^verbatim>\<open>pirls_\<close>, \<^verbatim>\<open>fit\<close>)\<close>

text \<open>
  How one pass of the loop body ends: it falls through to the next pass, leaves the loop
  at \<^verbatim>\<open>break\<close> (line 188) or leaves the method at \<^verbatim>\<open>return\<close> (line 208).
\<close>

datatype flow = Continue | Break | Return

text \<open>Lines 203 to 208: the five diagnostics, assigned in this order.\<close>

definition pirls_diagnostics ::
  "env \<Rightarrow> matrix \<Rightarrow> matrix \<Rightarrow> matrix \<Rightarrow> matrix \<Rightarrow> matrix \<Rightarrow> real list \<Rightarrow> real list
     \<Rightarrow> LogisticGAM \<Rightarrow> (py_error + flow) \<times> LogisticGAM" where
  "pirls_diagnostics E bases inner BW weights X y proba s =
     (let s1 = s\<lparr>edof' := Some (estimate_edof' E bases inner BW)\<rparr> in
      case estimate_rse' s1 y proba weights of
        Inl e \<Rightarrow> (Inl e, s1)
      | Inr r \<Rightarrow>
          (let s2 = s1\<lparr>rse' := Some r\<rparr> in
           case estimate_se' s2 bases inner BW of
             Inl e \<Rightarrow> (Inl e, s2)
           | Inr v \<Rightarrow>
               (case estimate_AIC' (s2\<lparr>se' := Some v\<rparr>) X y (Some proba) of
                  (Inl e, s3) \<Rightarrow> (Inl e, s3)
                | (Inr a, s3) \<Rightarrow>
                    (case estimate_AICc' (s3\<lparr>aic' := Some a\<rparr>) X y (Some proba) of
                       (Inl e, s4) \<Rightarrow> (Inl e, s4)
                     | (Inr c, s4) \<Rightarrow> (Inr Return, s4\<lparr>aicc' := Some c\<rparr>)))))"

text \<open>Lines 190 to 208: the update of the coefficients and the convergence check.\<close>

definition pirls_update ::
  "env \<Rightarrow> matrix \<Rightarrow> matrix \<Rightarrow> matrix \<Rightarrow> real list \<Rightarrow> real list \<Rightarrow> real list
     \<Rightarrow> LogisticGAM \<Rightarrow> (py_error + flow) \<times> LogisticGAM" where
  "pirls_update E bases P X y log_odds proba s =
     (case weights' proba of
        Inl e \<Rightarrow> (Inl e, s)
      | Inr weights \<Rightarrow>
          (let pseudo_data = pseudo_data' y log_odds proba;
               BW = mat_mul (mat_T (shape1 bases) bases) weights
           in case sparse_inv E (mat_add (mat_mul BW bases) P) of
                None \<Rightarrow> (Inl RuntimeError, s)
              | Some inner \<Rightarrow>
                  (let b_new = mat_vec (mat_mul inner BW) pseudo_data
                   in case b' s of
                        None \<Rightarrow> (Inl TypeError, s)
                      | Some b_old \<Rightarrow>
                          (case rel_change b_old b_new of
                             Inl e \<Rightarrow> (Inl e, s)
                           | Inr diff \<Rightarrow>
                               (let s1 = s\<lparr>diffs := diffs s @ [diff], b' := Some (Vec b_new)\<rparr>
                                in if np_less diff (tol s1)
                                   then pirls_diagnostics E bases inner BW weights X y proba s1
                                   else (Inr Continue, s1))))))"

text \<open>
  Lines 180 to 188: the log-odds, the probabilities, the two logs and the saturation
  test. A response vector that cannot be broadcast against the probabilities makes the
  comparison in \<^verbatim>\<open>accuracy_\<close> fail, before anything is appended to the logs.

  The probabilities are float64 numbers, and rounding can make one of them exactly 0 or
  exactly 1, which is what the saturation test looks for. The function \<open>sg\<close> stands for
  \<^verbatim>\<open>proba_\<close> (line 109) as the machine evaluates it on one log-odds value; in exact real
  arithmetic it is \<open>proba'\<close>.
\<close>

definition pirls_body_fl ::
  "(real \<Rightarrow> real) \<Rightarrow> env \<Rightarrow> matrix \<Rightarrow> matrix \<Rightarrow> matrix \<Rightarrow> real list \<Rightarrow> LogisticGAM
     \<Rightarrow> (py_error + flow) \<times> LogisticGAM" where
  "pirls_body_fl sg E bases P X y s =
     (case bases_dot bases (b' s) of
        Inl e \<Rightarrow> (Inl e, s)
      | Inr log_odds \<Rightarrow>
          (let proba = map sg log_odds in
           if \<not> np_compatible y proba then (Inl ShapeMismatch, s)
           else
             (let s1 = s\<lparr>acc := acc s @ [accuracy' y proba]\<rparr>;
                  s2 = s1\<lparr>nll := nll s1 @ [np_uminus (loglik y proba)]\<rparr>
              in if saturated proba then (Inr Break, s2)
                 else pirls_update E bases P X y log_odds proba s2)))"

text \<open>
  How \<^verbatim>\<open>pirls_\<close> ends: \<open>Converged\<close> is the \<^verbatim>\<open>return\<close> in line 208; \<open>Saturated\<close> is the
  \<^verbatim>\<open>break\<close> in line 188, after which line 210 prints; \<open>Exhausted\<close> is the end of
  \<^verbatim>\<open>range(self.n_iter)\<close>, after which line 210 prints.
\<close>

datatype exit = Converged | Saturated | Exhausted

fun pirls_loop_fl ::
  "(real \<Rightarrow> real) \<Rightarrow> env \<Rightarrow> nat \<Rightarrow> matrix \<Rightarrow> matrix \<Rightarrow> matrix \<Rightarrow> real list \<Rightarrow> LogisticGAM
     \<Rightarrow> (py_error + exit) \<times> LogisticGAM" where
  "pirls_loop_fl sg E 0 bases P X y s = (Inr Exhausted, s)"
| "pirls_loop_fl sg E (Suc n) bases P X y s =
     (case pirls_body_fl sg E bases P X y s of
        (Inl e, s1) \<Rightarrow> (Inl e, s1)
      | (Inr Continue, s1) \<Rightarrow> pirls_loop_fl sg E n bases P X y s1
      | (Inr Break, s1) \<Rightarrow> (Inr Saturated, s1)
      | (Inr Return, s1) \<Rightarrow> (Inr Converged, s1))"

text \<open>Lines 174 and 175: \<^verbatim>\<open>np.zeros((bases.shape[1], 1))\<close> when no coefficients exist yet.\<close>

definition init_coef :: "LogisticGAM \<Rightarrow> matrix \<Rightarrow> LogisticGAM" where
  "init_coef s bases =
     (if b' s = None then s\<lparr>b' := Some (Col (replicate (shape1 bases) 0))\<rparr> else s)"

definition pirls_fl ::
  "(real \<Rightarrow> real) \<Rightarrow> env \<Rightarrow> LogisticGAM \<Rightarrow> matrix \<Rightarrow> real list
     \<Rightarrow> (py_error + exit) \<times> LogisticGAM" where
  "pirls_fl sg E s X y =
     (case bases' s X of
        (Inl e, s1) \<Rightarrow> (Inl e, s1)
      | (Inr bases, s1) \<Rightarrow>
          (let s2 = init_coef s1 bases
           in case P' s2 of
                Inl e \<Rightarrow> (Inl e, s2)
              | Inr P \<Rightarrow> pirls_loop_fl sg E (nat (n_iter s2)) bases P X y s2))"

definition fit_fl ::
  "(real \<Rightarrow> real) \<Rightarrow> env \<Rightarrow> LogisticGAM \<Rightarrow> matrix \<Rightarrow> real list
     \<Rightarrow> (py_error + exit) \<times> LogisticGAM" where
  "fit_fl sg E s X y =
     pirls_fl sg E (s\<lparr>knots' := Some (map (\<lambda>feat. gen_knots E feat (nat (n_knots s)) True)
                                         (mat_T (shape1 X) X))\<rparr>) X y"

text \<open>The loop body, \<^verbatim>\<open>pirls_\<close> and \<^verbatim>\<open>fit\<close> in exact real arithmetic.\<close>

definition pirls_body ::
  "env \<Rightarrow> matrix \<Rightarrow> matrix \<Rightarrow> matrix \<Rightarrow> real list \<Rightarrow> LogisticGAM
     \<Rightarrow> (py_error + flow) \<times> LogisticGAM" where
  "pirls_body E bases P X y s = pirls_body_fl proba' E bases P X y s"

definition pirls' ::
  "env \<Rightarrow> LogisticGAM \<Rightarrow> matrix \<Rightarrow> real list \<Rightarrow> (py_error + exit) \<times> LogisticGAM" where
  "pirls' E s X y = pirls_fl proba' E s X y"

definition fit ::
  "env \<Rightarrow> LogisticGAM \<Rightarrow> matrix \<Rightarrow> real list \<Rightarrow> (py_error + exit) \<times> LogisticGAM" where
  "fit E s X y = fit_fl proba' E s X y"

section \<open>Reference inputs and specification-side notions\<close>

text \<open>The object that \<^verbatim>\<open>LogisticGAM()\<close> creates from the default arguments.\<close>

definition default_model :: LogisticGAM where
  "default_model =
     \<lparr> n_iter = 100, lam = 6 / 10, tol = 1 / 10 ^ 5, n_knots = 20, diff_order = 1,
       spline_order = 4, b' = None, knots' = None, n_bases' = [],
       edof' = None, rse' = None, se' = None, aic' = None, aicc' = None,
       acc = [], nll = [], diffs = [] \<rparr>"

text \<open>A Python \<^verbatim>\<open>int\<close> that is at least \<open>c\<close>: what the assertions of \<^verbatim>\<open>__init__\<close> accept.\<close>

fun int_at_least :: "pyval \<Rightarrow> int \<Rightarrow> bool" where
  "int_at_least (PyInt n) c = (c \<le> n)"
| "int_at_least v c = False"

text \<open>
  The penalty of section 4.3 of the specification, written by index. The first difference
  of a sequence, the \<open>d\<close>-th finite-difference operator on the identity of size \<open>n\<close>, the
  product of a matrix with its own transpose, the entry of a block-diagonal arrangement
  of square blocks, and the assembled penalty with its ridge of \<open>1e-7\<close>.
\<close>

definition first_difference :: "real list \<Rightarrow> real list" where
  "first_difference a = map (\<lambda>i. a ! Suc i - a ! i) [0..<length a - 1]"

definition identity_matrix :: "nat \<Rightarrow> matrix" where
  "identity_matrix n = map (\<lambda>i. map (\<lambda>j. if i = j then 1 else 0) [0..<n]) [0..<n]"

definition difference_operator :: "nat \<Rightarrow> nat \<Rightarrow> matrix" where
  "difference_operator d n = map (first_difference ^^ d) (identity_matrix n)"

definition times_transpose :: "matrix \<Rightarrow> matrix" where
  "times_transpose D =
     map (\<lambda>i. map (\<lambda>j. sum_list (map (\<lambda>k. D ! i ! k * D ! j ! k) [0..<shape1 D]))
                  [0..<length D])
         [0..<length D]"

definition proto_penalty :: "nat \<Rightarrow> nat \<Rightarrow> matrix" where
  "proto_penalty d n = (if n = 1 then [[0]] else times_transpose (difference_operator d n))"

fun block_entry :: "matrix list \<Rightarrow> nat \<Rightarrow> nat \<Rightarrow> real" where
  "block_entry [] i j = 0"
| "block_entry (M # Ms) i j =
     (if i < length M \<and> j < length M then M ! i ! j
      else if length M \<le> i \<and> length M \<le> j
           then block_entry Ms (i - length M) (j - length M)
           else 0)"

definition assemble_penalty :: "nat list \<Rightarrow> real \<Rightarrow> nat \<Rightarrow> matrix" where
  "assemble_penalty sizes l d =
     (let blocks = map (\<lambda>n. map (map (\<lambda>v. l * v)) (proto_penalty d n)) sizes;
          tot = sum_list sizes
      in map (\<lambda>i. map (\<lambda>j. block_entry blocks i j + (if i = j then 1 / 10 ^ 7 else 0)) [0..<tot])
             [0..<tot])"

text \<open>
  Notions for statements about \<^verbatim>\<open>pirls_\<close>: the five diagnostics of an object, and the
  coefficients after \<open>n\<close> passes of lines 180 to 199 as a function of the coefficients
  before them (\<open>None\<close> when the inverse raises).
\<close>

definition diagnostics ::
  "LogisticGAM \<Rightarrow> npfloat option \<times> npfloat option \<times> npfloat list option
     \<times> npfloat option \<times> npfloat option" where
  "diagnostics s = (edof' s, rse' s, se' s, aic' s, aicc' s)"

text \<open>The attributes that no pass of the loop assigns.\<close>

definition same_frame :: "LogisticGAM \<Rightarrow> LogisticGAM \<Rightarrow> bool" where
  "same_frame s s' =
     (n_iter s' = n_iter s \<and> lam s' = lam s \<and> tol s' = tol s \<and> n_knots s' = n_knots s
      \<and> diff_order s' = diff_order s \<and> spline_order s' = spline_order s
      \<and> knots' s' = knots' s \<and> n_bases' s' = n_bases' s)"

definition coef_update ::
  "(real \<Rightarrow> real) \<Rightarrow> env \<Rightarrow> matrix \<Rightarrow> matrix \<Rightarrow> real list \<Rightarrow> coef \<Rightarrow> real list option" where
  "coef_update sg E bases P y c =
     (let log_odds = mat_vec bases (coef_vals c);
          proba = map sg log_odds;
          BW = mat_mul (mat_T (shape1 bases) bases) (diags (map (\<lambda>p. p * (1 - p)) proba))
      in case sparse_inv E (mat_add (mat_mul BW bases) P) of
           None \<Rightarrow> None
         | Some inner \<Rightarrow> Some (mat_vec (mat_mul inner BW) (pseudo_data' y log_odds proba)))"


text \<open>
  What lines 203 to 207 leave in the object \<open>s\<close>, in the arguments of those lines:
  \<^verbatim>\<open>edof_\<close> is what \<^verbatim>\<open>estimate_edof_\<close> returns, and each of \<^verbatim>\<open>rse_\<close>, \<^verbatim>\<open>se_\<close>, \<^verbatim>\<open>aic_\<close> and
  \<^verbatim>\<open>aicc_\<close> is what its \<^verbatim>\<open>estimate_\<close> method returns on \<open>s\<close>.
\<close>

definition diagnostics_from ::
  "env \<Rightarrow> matrix \<Rightarrow> matrix \<Rightarrow> matrix \<Rightarrow> matrix \<Rightarrow> matrix \<Rightarrow> real list \<Rightarrow> real list
     \<Rightarrow> LogisticGAM \<Rightarrow> bool" where
  "diagnostics_from E bases inner BW weights X y proba s =
     (edof' s = Some (estimate_edof' E bases inner BW)
      \<and> map_option Inr (rse' s) = Some (estimate_rse' s y proba weights)
      \<and> map_option Inr (se' s) = Some (estimate_se' s bases inner BW)
      \<and> map_option Inr (aic' s) = Some (fst (estimate_AIC' s X y (Some proba)))
      \<and> map_option Inr (aicc' s) = Some (fst (estimate_AICc' s X y (Some proba))))"

text \<open>
  The five diagnostics of \<open>s\<close> are those of the pass that started from the coefficients
  \<open>c\<close>: they are computed from the probabilities, the weights, \<open>BW\<close> and the inverse of that
  pass.
\<close>

definition diagnostics_of_pass ::
  "(real \<Rightarrow> real) \<Rightarrow> env \<Rightarrow> matrix \<Rightarrow> matrix \<Rightarrow> matrix \<Rightarrow> real list \<Rightarrow> coef \<Rightarrow> LogisticGAM
     \<Rightarrow> bool" where
  "diagnostics_of_pass sg E bases P X y c s =
     (let log_odds = mat_vec bases (coef_vals c);
          proba = map sg log_odds;
          weights = diags (map (\<lambda>p. p * (1 - p)) proba);
          BW = mat_mul (mat_T (shape1 bases) bases) weights
      in case sparse_inv E (mat_add (mat_mul BW bases) P) of
           None \<Rightarrow> False
         | Some inner \<Rightarrow> diagnostics_from E bases inner BW weights X y proba s)"

text \<open>
  When \<^verbatim>\<open>b_spline_basis\<close> returns a matrix for the knots \<open>ks\<close>: the knot list is not empty,
  the order is positive and the column \<open>order\<close> of line 31 exists.
\<close>

definition basis_fits :: "real list \<Rightarrow> nat \<Rightarrow> bool" where
  "basis_fits ks order = (ks \<noteq> [] \<and> order \<noteq> 0 \<and> order < length (aug_knots ks order) - 1)"

text \<open>
  A small run used in the examples: two samples of one feature, no interior knots, spline
  order 2 and a single pass. The basis matrix has three columns: the intercept and the
  two hat functions on the interval of the data. The library functions are exact on the
  run: the percentile at the two ends of the data, the inverse of a matrix of size up to
  3, and the identity permutation.
\<close>

definition inverse_upto_3 :: "matrix \<Rightarrow> matrix option" where
  "inverse_upto_3 M =
     (if map length M = [1] then
        (let a = M ! 0 ! 0 in if a = 0 then None else Some [[1 / a]])
      else if map length M = [2, 2] then
        (let a = M ! 0 ! 0; b = M ! 0 ! 1; c = M ! 1 ! 0; d = M ! 1 ! 1;
             det = a * d - b * c
         in if det = 0 then None
            else Some [[d / det, - b / det], [- c / det, a / det]])
      else if map length M = [3, 3, 3] then
        (let a = M ! 0 ! 0; b = M ! 0 ! 1; c = M ! 0 ! 2;
             d = M ! 1 ! 0; e = M ! 1 ! 1; f = M ! 1 ! 2;
             g = M ! 2 ! 0; h = M ! 2 ! 1; i = M ! 2 ! 2;
             det = a * (e * i - f * h) - b * (d * i - f * g) + c * (d * h - e * g)
         in if det = 0 then None
            else Some [[(e * i - f * h) / det, (c * h - b * i) / det, (b * f - c * e) / det],
                       [(f * g - d * i) / det, (a * i - c * g) / det, (c * d - a * f) / det],
                       [(d * h - e * g) / det, (b * g - a * h) / det, (a * e - b * d) / det]])
      else None)"

definition demo_env :: env where
  "demo_env =
     \<lparr> np_percentile = (\<lambda>data q. if q \<le> 0 then np_min data else np_max data),
       sparse_inv = inverse_upto_3,
       np_shuffle = (\<lambda>idxs. idxs) \<rparr>"

definition demo_model :: LogisticGAM where
  "demo_model = default_model\<lparr>n_iter := 1, n_knots := 0, spline_order := 2\<rparr>"

definition demo_X :: matrix where
  "demo_X = [[0], [1]]"

definition demo_y :: "real list" where
  "demo_y = [1, 1]"



section \<open>The logistic transform\<close>

lemma proba_pos: "0 < proba' l"
  by (simp add: proba'_def add_pos_pos)

lemma proba_less_one: "proba' l < 1"
  by (simp add: proba'_def add_pos_pos)

lemma proba_weight_nonzero: "proba' l * (1 - proba' l) \<noteq> 0"
  using proba_pos [of l] proba_less_one [of l] by simp

lemma not_saturated_proba: "\<not> saturated (map proba' ls)"
proof -
  have "\<And>l. proba' l \<noteq> 0" "\<And>l. proba' l \<noteq> 1"
    using proba_pos proba_less_one by (metis less_irrefl)+
  then show ?thesis by (auto simp: saturated_def list_ex_iff)
qed

section \<open>The boundary assignments of the spline basis\<close>

text \<open>
  Claim C3. In the indicator initialisation a sample at or beyond the largest knot should
  activate the last basis function and a sample below the smallest knot the first one.
  Line 30 writes column \<open>-order\<close>, the last interval of positive width; line 31 writes
  column \<open>order\<close>, which is one past the first interval of positive width, column
  \<open>order - 1\<close>. For the knots \<open>0, 1, 2\<close>, spline order 1 and the sample \<open>-1\<close> the two
  indicator columns are the intervals \<open>[0, 1)\<close> and \<open>[1, 2)\<close>, and the source activates
  the second one.
\<close>

theorem haar_init_below_minimum_activates_second:
  "haar_init (- 1) (aug_knots [0, 1, 2] 1) 1 = Inr [0, 1]"
  by (simp add: aug_knots_def np_min_def np_max_def haar_init_def haar_bases_def Let_def)

text \<open>
  Claim C4. Every row of the basis matrix should sum to 1. For the knots \<open>0, 1\<close>, spline
  order 2 and the sample \<open>-1\<close>, which lies below the smallest knot, line 31 activates the
  indicator of the empty interval \<open>[1, 1)\<close>; both of its blending terms are masked and
  the row of the basis matrix is zero.
\<close>

theorem b_spline_row_below_minimum_is_zero:
  "b_spline_row (- 1) [0, 1] 2 = Inr [0, 0]"
  by (simp add: b_spline_row_def aug_knots_def np_min_def np_max_def haar_init_def
      haar_bases_def de_boor_step_def blend_def blend_right_def py_slice_def Let_def
      upt_rec numeral_2_eq_2)

section \<open>Construction\<close>

lemma default_model_init:
  "LogisticGAM_init (6 / 10) (PyInt 100) (1 / 10 ^ 5) (PyInt 20) 1 (PyInt 4) = Inr default_model"
  by (simp add: LogisticGAM_init_def default_model_def)

lemma type_is_int_ge: "(py_ge v c \<and> type_is_int v) = int_at_least v c"
  by (cases v) simp_all

text \<open>
  Claim C2, as the source has it. \<^verbatim>\<open>__init__\<close> raises AssertionError exactly when
  \<^verbatim>\<open>n_iter\<close> is not an \<^verbatim>\<open>int\<close> of at least 1, \<^verbatim>\<open>n_knots\<close> is not an \<^verbatim>\<open>int\<close> of at least 0
  or \<^verbatim>\<open>spline_order\<close> is not an \<^verbatim>\<open>int\<close> of at least 1. In every other case the object is
  created, with \<^verbatim>\<open>lam\<close>, \<^verbatim>\<open>tol\<close> and \<^verbatim>\<open>diff_order\<close> stored as they were passed.
\<close>

theorem init_asserts_only_the_counts:
  "LogisticGAM_init l ni t nk d so =
     (if int_at_least ni 1 \<and> int_at_least nk 0 \<and> int_at_least so 1
      then Inr \<lparr> n_iter = the_int ni, lam = l, tol = t, n_knots = the_int nk, diff_order = d,
                 spline_order = the_int so, b' = None, knots' = None, n_bases' = [],
                 edof' = None, rse' = None, se' = None, aic' = None, aicc' = None,
                 acc = [], nll = [], diffs = [] \<rparr>
      else Inl AssertionError)"
  by (simp add: LogisticGAM_init_def type_is_int_ge)

text \<open>
  Claim C2 as stated fails: a negative \<^verbatim>\<open>lam\<close>, a negative \<^verbatim>\<open>tol\<close> and
  \<^verbatim>\<open>diff_order = 0\<close> are accepted, and the object is created with them.
\<close>

theorem init_accepts_negative_lam_counterexample:
  "LogisticGAM_init (- 1) (PyInt 100) (- 1) (PyInt 20) 0 (PyInt 4) =
     Inr (default_model\<lparr>lam := - 1, tol := - 1, diff_order := 0\<rparr>)"
  by (simp add: LogisticGAM_init_def default_model_def)

section \<open>Prediction\<close>

text \<open>
  Claim C8. \<^verbatim>\<open>predict(X)\<close> is \<^verbatim>\<open>predict_proba(X) > 0.5\<close>, element by element: the two
  calls raise the same exception or return lists related by the threshold, and they
  leave the object in the same state.
\<close>

theorem predict_is_thresholded_predict_proba:
  "fst (predict s X) = map_sum id (map (\<lambda>p. 1 / 2 < p)) (fst (predict_proba s X))
   \<and> snd (predict s X) = snd (predict_proba s X)"
  by (simp add: predict_def split: prod.splits sum.splits)

section \<open>The corrected information criterion\<close>

text \<open>
  Claim C1, as the source has it. For a model whose effective degrees of freedom are the
  finite number \<open>e\<close> and whose AIC is set, \<^verbatim>\<open>estimate_AICc_\<close> never raises and never
  changes the object: it returns the AIC plus the float64 quotient of
  \<open>2 (e + 1) (e + 2)\<close> by \<open>n - e - 2\<close>, whatever the sign of the denominator. A negative
  denominator gives an ordinary finite number, a zero denominator an infinity or NaN.
\<close>

theorem estimate_AICc_unguarded:
  assumes "edof' s = Some (Fin e)" and "aic' s = Some a"
  shows "estimate_AICc' s X y p =
           (Inr (np_plus a (np_div (2 * (e + 1) * (e + 2)) (real (length y) - e - 2))), s)"
  using assms by (simp add: estimate_AICc'_def aicc_correction_def np_minus_def)

theorem estimate_AICc_unguarded_witness:
  "estimate_AICc' (default_model\<lparr>edof' := Some (Fin 1), aic' := Some (Fin 0)\<rparr>) []
       [1, 0, 1, 0, 1] None
     = (Inr (Fin 6), default_model\<lparr>edof' := Some (Fin 1), aic' := Some (Fin 0)\<rparr>)"
  using estimate_AICc_unguarded
    [of "default_model\<lparr>edof' := Some (Fin 1), aic' := Some (Fin 0)\<rparr>" 1 "Fin 0" "[]"
        "[1, 0, 1, 0, 1]" None]
  by (simp add: np_div_def)

text \<open>
  Claim C1 as stated fails: with three samples and \<open>edof = 1\<close> the denominator is zero,
  and the call returns the value \<open>+inf\<close> like any other number.
\<close>

theorem estimate_AICc_zero_denominator_counterexample:
  "fst (estimate_AICc' (default_model\<lparr>edof' := Some (Fin 1), aic' := Some (Fin 0)\<rparr>) []
          [1, 0, 1] None)
     = Inr PInf"
  by (simp add: estimate_AICc'_def aicc_correction_def np_minus_def np_div_def)

section \<open>Saturation\<close>

lemma pirls_diagnostics_flow:
  "fst (pirls_diagnostics E bases inner BW weights X y proba s) \<noteq> Inr Break
   \<and> fst (pirls_diagnostics E bases inner BW weights X y proba s) \<noteq> Inr Continue"
  by (simp add: pirls_diagnostics_def Let_def split: sum.splits prod.splits)

lemma pirls_update_no_break:
  "fst (pirls_update E bases P X y log_odds proba s) \<noteq> Inr Break"
  using pirls_diagnostics_flow
  by (simp add: pirls_update_def Let_def split: sum.splits option.splits)

lemma pirls_body_no_break: "fst (pirls_body E bases P X y s) \<noteq> Inr Break"
  using pirls_update_no_break not_saturated_proba
  by (simp add: pirls_body_def pirls_body_fl_def Let_def split: sum.splits)

lemma pirls_loop_not_saturated:
  "fst (pirls_loop_fl proba' E n bases P X y s) \<noteq> Inr Saturated"
proof (induction n arbitrary: s)
  case 0
  show ?case by simp
next
  case (Suc n)
  obtain r s1 where b: "pirls_body_fl proba' E bases P X y s = (r, s1)"
    by (cases "pirls_body_fl proba' E bases P X y s")
  have nb: "r \<noteq> Inr Break"
    using pirls_body_no_break [of E bases P X y s] b by (simp add: pirls_body_def)
  show ?case
  proof (cases r)
    case (Inl e)
    with b show ?thesis by simp
  next
    case (Inr f)
    with nb b Suc.IH [of s1] show ?thesis by (cases f) simp_all
  qed
qed

lemma pirls_not_saturated: "fst (pirls' E s X y) \<noteq> Inr Saturated"
  using pirls_loop_not_saturated
  by (simp add: pirls'_def pirls_fl_def Let_def split: prod.splits sum.splits)

text \<open>
  Claim C9. In exact real arithmetic the logistic transform of any log-odds lies strictly
  between 0 and 1, so \<open>p (1 - p)\<close>, the divisor in the pseudo-data, is never zero, the
  saturation test of line 186 never succeeds, no pass of the loop body ends at
  \<^verbatim>\<open>break\<close>, and \<^verbatim>\<open>pirls_\<close> never ends saturated.
\<close>

theorem logistic_strictly_inside_unit_interval:
  "0 < proba' l \<and> proba' l < 1 \<and> proba' l * (1 - proba' l) \<noteq> 0
   \<and> \<not> saturated (map proba' ls)
   \<and> fst (pirls_body E bases P X y s) \<noteq> Inr Break
   \<and> fst (pirls' E s X y) \<noteq> Inr Saturated"
  using proba_pos proba_less_one proba_weight_nonzero not_saturated_proba
    pirls_body_no_break pirls_not_saturated
  by blast

section \<open>The penalty matrix\<close>

lemma diff_row_first_difference: "diff_row a = first_difference a"
proof (induction a rule: diff_row.induct)
  case (1 a b xs)
  have "first_difference (a # b # xs) =
          map (\<lambda>i. (a # b # xs) ! Suc i - (a # b # xs) ! i) [0..<Suc (length xs)]"
    by (simp add: first_difference_def)
  also have "\<dots> = (b - a) # map (\<lambda>i. (b # xs) ! Suc i - (b # xs) ! i) [0..<length xs]"
    by (simp add: map_upt_Suc del: upt_Suc)
  also have "\<dots> = (b - a) # first_difference (b # xs)"
    by (simp add: first_difference_def)
  finally show ?case using 1 by simp
qed (simp_all add: first_difference_def)

lemma diff_row_funpow: "diff_row ^^ d = first_difference ^^ d"
  using diff_row_first_difference by (simp add: fun_eq_iff) presburger

lemma length_first_difference: "length (first_difference a) = length a - 1"
  by (simp add: first_difference_def)

lemma length_first_difference_funpow: "length ((first_difference ^^ d) a) = length a - d"
  by (induction d) (simp_all add: length_first_difference)

lemma eye_identity: "eye n = identity_matrix n"
  by (auto simp: eye_def diags_def identity_matrix_def intro!: nth_equalityI)

lemma dotp_index:
  "length a = length b \<Longrightarrow> dotp a b = sum_list (map (\<lambda>k. a ! k * b ! k) [0..<length a])"
proof -
  assume l: "length a = length b"
  have "map2 (*) a b = map (\<lambda>k. a ! k * b ! k) [0..<length a]"
    using l by (auto intro!: nth_equalityI)
  then show ?thesis by (simp add: dotp_def)
qed

lemma rows_difference_operator:
  "r \<in> set (difference_operator d n) \<Longrightarrow> length r = n - d"
  by (auto simp: difference_operator_def identity_matrix_def length_first_difference_funpow)

lemma length_difference_operator: "length (difference_operator d n) = n"
  by (simp add: difference_operator_def identity_matrix_def)

lemma shape1_difference_operator: "0 < n \<Longrightarrow> shape1 (difference_operator d n) = n - d"
proof -
  assume "0 < n"
  then obtain r rs where e: "difference_operator d n = r # rs"
    using length_difference_operator [of d n] by (cases "difference_operator d n") auto
  then have "length r = n - d" using rows_difference_operator [of r d n] by simp
  with e show ?thesis by (simp add: shape1_def)
qed

lemma mat_mul_T_times_transpose:
  assumes "\<And>r. r \<in> set D \<Longrightarrow> length r = shape1 D"
  shows "mat_mul_T D D = times_transpose D"
proof -
  have e: "dotp (D ! i) (D ! j) = sum_list (map (\<lambda>k. D ! i ! k * D ! j ! k) [0..<shape1 D])"
    if "i < length D" "j < length D" for i j
    using that assms [of "D ! i"] assms [of "D ! j"] dotp_index [of "D ! i" "D ! j"] by simp
  show ?thesis
    unfolding mat_mul_T_def times_transpose_def
    by (rule nth_equalityI, simp, simp, rule nth_equalityI, simp, simp add: e)
qed

lemma proto_P_refines:
  assumes "0 \<le> diff_order s"
  shows "proto_P' s n = Inr (proto_penalty (nat (diff_order s)) n)"
proof (cases "n = 1")
  case True
  then show ?thesis by (simp add: proto_P'_def proto_penalty_def)
next
  case False
  let ?D = "difference_operator (nat (diff_order s)) n"
  have D: "np_diff (eye n) (diff_order s) = Inr ?D"
    using assms by (simp add: np_diff_def eye_identity diff_row_funpow difference_operator_def)
  have "mat_mul_T ?D ?D = times_transpose ?D"
  proof (cases "n = 0")
    case True
    then show ?thesis
      by (simp add: difference_operator_def identity_matrix_def mat_mul_T_def times_transpose_def)
  next
    case False
    then show ?thesis
      using rows_difference_operator shape1_difference_operator
      by (intro mat_mul_T_times_transpose) simp
  qed
  with D False show ?thesis by (simp add: proto_P'_def proto_penalty_def)
qed

lemma proto_penalty_square:
  "length (proto_penalty d n) = n \<and> (\<forall>r \<in> set (proto_penalty d n). length r = n)"
  by (auto simp: proto_penalty_def times_transpose_def length_difference_operator)

lemma sequence_map_Inr:
  "(\<And>x. x \<in> set xs \<Longrightarrow> f x = Inr (g x)) \<Longrightarrow> sequence (map f xs) = Inr (map g xs)"
  by (induction xs) simp_all

lemma length_block_diag_rows:
  "length (block_diag_rows off tot Ms) = sum_list (map length Ms)"
  by (induction Ms arbitrary: off) simp_all

lemma block_diag_rows_row_length:
  assumes "\<And>M r. M \<in> set Ms \<Longrightarrow> r \<in> set M \<Longrightarrow> length r = length M"
    and "off + sum_list (map length Ms) = tot"
    and "r \<in> set (block_diag_rows off tot Ms)"
  shows "length r = tot"
  using assms
proof (induction Ms arbitrary: off)
  case Nil
  then show ?case by simp
next
  case (Cons M Ms)
  from Cons.prems(3) consider
      (here) r0 where "r0 \<in> set M" "r = replicate off 0 @ r0 @ replicate (tot - off - length M) 0"
    | (later) "r \<in> set (block_diag_rows (off + length M) tot Ms)"
    by auto
  then show ?case
  proof cases
    case here
    then have "length r0 = length M" using Cons.prems(1) by simp
    with here Cons.prems(2) show ?thesis by simp
  next
    case later
    show ?thesis
      by (rule Cons.IH [of "off + length M"]) (use Cons.prems later in auto)
  qed
qed

lemma block_diag_rows_nth:
  assumes "\<And>M r. M \<in> set Ms \<Longrightarrow> r \<in> set M \<Longrightarrow> length r = length M"
    and "off + sum_list (map length Ms) = tot"
    and "i < sum_list (map length Ms)" and "j < tot"
  shows "block_diag_rows off tot Ms ! i ! j = (if off \<le> j then block_entry Ms i (j - off) else 0)"
  using assms
proof (induction Ms arbitrary: off i)
  case Nil
  then show ?case by simp
next
  case (Cons M Ms)
  show ?case
  proof (cases "i < length M")
    case True
    have lr: "length (M ! i) = length M" using Cons.prems(1) True by simp
    have "block_diag_rows off tot (M # Ms) ! i =
            replicate off 0 @ (M ! i) @ replicate (tot - off - length M) 0"
      using True by (simp add: nth_append)
    then show ?thesis
      using True lr Cons.prems(2,4) by (auto simp: nth_append)
  next
    case False
    have "block_diag_rows off tot (M # Ms) ! i =
            block_diag_rows (off + length M) tot Ms ! (i - length M)"
      using False by (simp add: nth_append)
    moreover have "block_diag_rows (off + length M) tot Ms ! (i - length M) ! j =
        (if off + length M \<le> j then block_entry Ms (i - length M) (j - (off + length M)) else 0)"
      by (rule Cons.IH) (use Cons.prems False in auto)
    ultimately show ?thesis using False by auto
  qed
qed

lemma diags_nth:
  "i < length v \<Longrightarrow> j < length v \<Longrightarrow> diags v ! i ! j = (if i = j then v ! i else 0)"
  by (simp add: diags_def)

lemma length_diags_row: "i < length v \<Longrightarrow> length (diags v ! i) = length v"
  by (simp add: diags_def)

lemma map_zip_replicate:
  "map f (zip (replicate (length xs) c) xs) = map (\<lambda>x. f (c, x)) xs"
  by (induction xs) simp_all

lemma P_refines:
  assumes d: "0 \<le> diff_order s" and b: "b' s = Some c"
    and len: "length (coef_vals c) = sum_list (n_bases' s)"
  shows "P' s = Inr (assemble_penalty (n_bases' s) (lam s) (nat (diff_order s)))"
proof -
  let ?nb = "n_bases' s"
  let ?pp = "proto_penalty (nat (diff_order s))"
  let ?blocks = "map (\<lambda>n. map (map (\<lambda>v. lam s * v)) (?pp n)) ?nb"
  let ?tot = "sum_list ?nb"
  let ?ridge = "replicate ?tot (1 / 10 ^ 7 :: real)"
  have seq: "sequence (map (proto_P' s) ?nb) = Inr (map ?pp ?nb)"
    by (rule sequence_map_Inr) (rule proto_P_refines [OF d])
  have lam: "lambdas s = replicate (length (map ?pp ?nb)) (lam s)"
    by (simp add: lambdas_def)
  have blocks: "map (\<lambda>(l, P). mat_scale l P) (zip (lambdas s) (map ?pp ?nb)) = ?blocks"
    unfolding lam map_zip_replicate by (simp add: mat_scale_def mult.commute)
  have sizes: "map length ?blocks = ?nb"
    using proto_penalty_square by (simp add: map_idI)
  have square: "length r = length M" if "M \<in> set ?blocks" "r \<in> set M" for M r
    using that proto_penalty_square by auto
  have bd: "block_diag ?blocks = block_diag_rows 0 ?tot ?blocks"
    unfolding block_diag_def sizes by (rule refl)
  have tot: "0 + sum_list (map length ?blocks) = ?tot"
    unfolding sizes by simp
  have lenP: "length (block_diag ?blocks) = ?tot"
    unfolding bd length_block_diag_rows sizes by (rule refl)
  have rowP: "length (block_diag ?blocks ! i) = ?tot" if "i < ?tot" for i
  proof -
    have "block_diag ?blocks ! i \<in> set (block_diag ?blocks)"
      using that lenP by simp
    then have "block_diag ?blocks ! i \<in> set (block_diag_rows 0 ?tot ?blocks)"
      unfolding bd .
    with square tot show ?thesis
      by (rule block_diag_rows_row_length)
  qed
  have entry: "block_diag ?blocks ! i ! j = block_entry ?blocks i j"
    if "i < ?tot" "j < ?tot" for i j
  proof -
    have "i < sum_list (map length ?blocks)" unfolding sizes by (rule that)
    with square tot
    have "block_diag_rows 0 ?tot ?blocks ! i ! j
            = (if 0 \<le> j then block_entry ?blocks i (j - 0) else 0)"
      using that(2) by (rule block_diag_rows_nth)
    then show ?thesis unfolding bd by simp
  qed
  have ridge: "map (\<lambda>one. one * (1 / 10 ^ 7)) (replicate (length (coef_vals c)) (1 :: real)) = ?ridge"
    by (simp add: len)
  have "mat_add (block_diag ?blocks) (diags ?ridge)
          = assemble_penalty ?nb (lam s) (nat (diff_order s))"
  proof (rule nth_equalityI)
    show "length (mat_add (block_diag ?blocks) (diags ?ridge))
            = length (assemble_penalty ?nb (lam s) (nat (diff_order s)))"
      by (simp add: mat_add_def lenP diags_def assemble_penalty_def Let_def)
  next
    fix i
    assume "i < length (mat_add (block_diag ?blocks) (diags ?ridge))"
    then have i: "i < ?tot" by (simp add: mat_add_def lenP diags_def)
    have row: "mat_add (block_diag ?blocks) (diags ?ridge) ! i
                 = map2 (+) (block_diag ?blocks ! i) (diags ?ridge ! i)"
      using i by (simp add: mat_add_def lenP diags_def)
    show "mat_add (block_diag ?blocks) (diags ?ridge) ! i
            = assemble_penalty ?nb (lam s) (nat (diff_order s)) ! i"
      unfolding row
    proof (rule nth_equalityI)
      show "length (map2 (+) (block_diag ?blocks ! i) (diags ?ridge ! i))
              = length (assemble_penalty ?nb (lam s) (nat (diff_order s)) ! i)"
        using i by (simp add: rowP length_diags_row assemble_penalty_def Let_def)
    next
      fix j
      assume "j < length (map2 (+) (block_diag ?blocks ! i) (diags ?ridge ! i))"
      then have j: "j < ?tot" using i by (simp add: rowP length_diags_row)
      show "map2 (+) (block_diag ?blocks ! i) (diags ?ridge ! i) ! j
              = assemble_penalty ?nb (lam s) (nat (diff_order s)) ! i ! j"
        using i j by (simp add: rowP length_diags_row entry diags_nth assemble_penalty_def Let_def)
    qed
  qed
  then show ?thesis
    using seq blocks b len lenP ridge by (simp add: P'_def)
qed

text \<open>
  Claim C7. For a non-negative difference order the proto-penalty of a block of size 1 is
  the \<open>1 \<times> 1\<close> zero matrix and that of any other size \<open>n\<close> is \<open>D D\<^sup>T\<close> for the
  difference operator \<open>D\<close> of that order on the identity of size \<open>n\<close>; the assembled
  penalty is the block-diagonal arrangement of the proto-penalties, each scaled by
  \<^verbatim>\<open>lam\<close>, plus \<open>1e-7\<close> on the whole diagonal. Both are stated as refinements: the
  list-recursive code computes the matrices that the specification describes by index.
\<close>

theorem penalty_matrix_refines_specification:
  assumes "0 \<le> diff_order s" and "b' s = Some c"
    and "length (coef_vals c) = sum_list (n_bases' s)"
  shows "proto_P' s n = Inr (proto_penalty (nat (diff_order s)) n)
         \<and> P' s = Inr (assemble_penalty (n_bases' s) (lam s) (nat (diff_order s)))"
  using assms proto_P_refines P_refines by simp

theorem penalty_matrix_refines_specification_witness:
  "0 \<le> diff_order (default_model\<lparr>n_bases' := [1, 2], b' := Some (Col [0, 0, 0])\<rparr>)
   \<and> proto_P' (default_model\<lparr>n_bases' := [1, 2], b' := Some (Col [0, 0, 0])\<rparr>) 2
       = Inr [[1, - 1], [- 1, 1]]
   \<and> P' (default_model\<lparr>n_bases' := [1, 2], b' := Some (Col [0, 0, 0])\<rparr>)
       = Inr [[1 / 10 ^ 7, 0, 0],
              [0, 6 / 10 + 1 / 10 ^ 7, - (6 / 10)],
              [0, - (6 / 10), 6 / 10 + 1 / 10 ^ 7]]"
proof -
  have e1: "proto_penalty 1 2 = [[1, - 1], [- 1, 1]]"
    by code_simp
  have e2: "assemble_penalty [1, 2] (6 / 10) 1
              = [[1 / 10 ^ 7, 0, 0],
                 [0, 6 / 10 + 1 / 10 ^ 7, - (6 / 10)],
                 [0, - (6 / 10), 6 / 10 + 1 / 10 ^ 7]]"
    by code_simp
  show ?thesis
    using penalty_matrix_refines_specification
            [of "default_model\<lparr>n_bases' := [1, 2], b' := Some (Col [0, 0, 0])\<rparr>"
                "Col [0, 0, 0]" 2]
          e1 e2
    by (simp add: default_model_def)
qed

section \<open>The fitting loop\<close>

lemma pirls_diagnostics_returns:
  "\<exists>s'. pirls_diagnostics E bases inner BW weights X y proba s = (Inr Return, s')
        \<and> diagnostics_from E bases inner BW weights X y proba s'
        \<and> b' s' = b' s \<and> diffs s' = diffs s \<and> same_frame s s'"
  by (simp add: pirls_diagnostics_def estimate_rse'_def estimate_se'_def estimate_AIC'_def
      estimate_AICc'_def loglikelihood'_def diagnostics_from_def same_frame_def Let_def)

lemma pirls_update_cases:
  assumes "pirls_update E bases P X y log_odds proba s = (r, s')"
  shows "same_frame s s' \<and>
       ((\<exists>e. r = Inl e \<and> s' = s)
       \<or> (\<exists>inner c d.
             sparse_inv E (mat_add (mat_mul (mat_mul (mat_T (shape1 bases) bases)
                                               (diags (map (\<lambda>p. p * (1 - p)) proba))) bases) P)
               = Some inner
           \<and> length proba \<noteq> 1
           \<and> b' s = Some c
           \<and> rel_change c (mat_vec (mat_mul inner (mat_mul (mat_T (shape1 bases) bases)
                                               (diags (map (\<lambda>p. p * (1 - p)) proba))))
                                          (pseudo_data' y log_odds proba)) = Inr d
           \<and> diffs s' = diffs s @ [d]
           \<and> b' s' = Some (Vec (mat_vec (mat_mul inner (mat_mul (mat_T (shape1 bases) bases)
                                               (diags (map (\<lambda>p. p * (1 - p)) proba))))
                                          (pseudo_data' y log_odds proba)))
           \<and> ((r = Inr Continue \<and> \<not> np_less d (tol s) \<and> diagnostics s' = diagnostics s)
              \<or> (r = Inr Return \<and> np_less d (tol s)
                  \<and> diagnostics_from E bases inner
                       (mat_mul (mat_T (shape1 bases) bases)
                                (diags (map (\<lambda>p. p * (1 - p)) proba)))
                       (diags (map (\<lambda>p. p * (1 - p)) proba)) X y proba s'))))"
proof (cases "weights' proba")
  case (Inl e)
  with assms show ?thesis by (auto simp: pirls_update_def same_frame_def)
next
  case (Inr W)
  then have W: "W = diags (map (\<lambda>p. p * (1 - p)) proba)" and l1: "length proba \<noteq> 1"
    by (auto simp: weights'_def split: if_splits)
  let ?BW = "mat_mul (mat_T (shape1 bases) bases) W"
  show ?thesis
  proof (cases "sparse_inv E (mat_add (mat_mul ?BW bases) P)")
    case None
    with assms Inr show ?thesis by (auto simp: pirls_update_def same_frame_def Let_def)
  next
    case (Some inner)
    let ?bn = "mat_vec (mat_mul inner ?BW) (pseudo_data' y log_odds proba)"
    show ?thesis
    proof (cases "b' s")
      case None
      with assms Inr Some show ?thesis by (auto simp: pirls_update_def same_frame_def Let_def)
    next
      case (Some b_old)
      note bo = this
      show ?thesis
      proof (cases "rel_change b_old ?bn")
        case (Inl e)
        with assms Inr \<open>sparse_inv E _ = Some inner\<close> bo show ?thesis
          by (auto simp: pirls_update_def same_frame_def Let_def)
      next
        case (Inr d)
        let ?s1 = "s\<lparr>diffs := diffs s @ [d], b' := Some (Vec ?bn)\<rparr>"
        show ?thesis
        proof (cases "np_less d (tol s)")
          case True
          obtain s2 where s2: "pirls_diagnostics E bases inner ?BW W X y proba ?s1 = (Inr Return, s2)"
            "diagnostics_from E bases inner ?BW W X y proba s2"
            "b' s2 = b' ?s1" "diffs s2 = diffs ?s1" "same_frame ?s1 s2"
            using pirls_diagnostics_returns [of E bases inner ?BW W X y proba ?s1] by blast
          have "r = Inr Return" "s' = s2"
            using assms \<open>weights' proba = Inr W\<close> \<open>sparse_inv E _ = Some inner\<close> bo Inr True s2(1)
            by (auto simp: pirls_update_def Let_def)
          with s2 True l1 W \<open>sparse_inv E _ = Some inner\<close> bo Inr show ?thesis
            by (auto simp: same_frame_def)
        next
          case False
          have "r = Inr Continue" "s' = ?s1"
            using assms \<open>weights' proba = Inr W\<close> \<open>sparse_inv E _ = Some inner\<close> bo Inr False
            by (auto simp: pirls_update_def Let_def)
          with False l1 W \<open>sparse_inv E _ = Some inner\<close> bo Inr show ?thesis
            by (auto simp: diagnostics_def same_frame_def)
        qed
      qed
    qed
  qed
qed

lemma bases_dot_Inr:
  "bases_dot bases c = Inr lo \<Longrightarrow> \<exists>b. c = Some b \<and> lo = mat_vec bases (coef_vals b)"
  by (auto simp: bases_dot_def split: option.splits if_splits)

lemma pirls_body_cases:
  assumes "pirls_body_fl sg E bases P X y s = (r, s')"
  shows "same_frame s s' \<and>
       ((\<exists>e. r = Inl e \<and> diagnostics s' = diagnostics s \<and> b' s' = b' s \<and> diffs s' = diffs s)
       \<or> (r = Inr Break \<and> diagnostics s' = diagnostics s \<and> b' s' = b' s \<and> diffs s' = diffs s
            \<and> (\<exists>c. b' s = Some c \<and> saturated (map sg (mat_vec bases (coef_vals c)))))
       \<or> (\<exists>c b d. b' s = Some c \<and> \<not> saturated (map sg (mat_vec bases (coef_vals c)))
             \<and> coef_update sg E bases P y c = Some b \<and> rel_change c b = Inr d
             \<and> b' s' = Some (Vec b) \<and> diffs s' = diffs s @ [d]
             \<and> ((r = Inr Continue \<and> \<not> np_less d (tol s) \<and> diagnostics s' = diagnostics s)
                \<or> (r = Inr Return \<and> np_less d (tol s)
                    \<and> diagnostics_of_pass sg E bases P X y c s'))))"
proof (cases "bases_dot bases (b' s)")
  case (Inl e)
  with assms show ?thesis by (auto simp: pirls_body_fl_def same_frame_def)
next
  case (Inr lo)
  then obtain c where c: "b' s = Some c" "lo = mat_vec bases (coef_vals c)"
    using bases_dot_Inr by blast
  let ?p = "map sg lo"
  let ?W = "diags (map (\<lambda>p. p * (1 - p)) ?p)"
  let ?BW = "mat_mul (mat_T (shape1 bases) bases) ?W"
  let ?s2 = "s\<lparr>acc := acc s @ [accuracy' y ?p], nll := nll s @ [np_uminus (loglik y ?p)]\<rparr>"
  have f2: "same_frame s ?s2" "diagnostics ?s2 = diagnostics s" "b' ?s2 = b' s"
    "diffs ?s2 = diffs s" "tol ?s2 = tol s"
    by (simp_all add: same_frame_def diagnostics_def)
  show ?thesis
  proof (cases "\<not> np_compatible y ?p")
    case True
    with assms Inr show ?thesis by (auto simp: pirls_body_fl_def same_frame_def Let_def)
  next
    case False
    note comp = this
    show ?thesis
    proof (cases "saturated ?p")
      case True
      have "r = Inr Break" "s' = ?s2"
        using assms Inr comp True by (simp_all add: pirls_body_fl_def Let_def)
      with f2 c True show ?thesis by simp
    next
      case False
      note ns = this
      have u: "pirls_update E bases P X y lo ?p ?s2 = (r, s')"
        using assms Inr comp ns by (simp add: pirls_body_fl_def Let_def)
      from pirls_update_cases [OF u] have sf: "same_frame ?s2 s'" by blast
      from pirls_update_cases [OF u] consider
        (err) e where "r = Inl e" "s' = ?s2"
        | (upd) inner c' d where
            "sparse_inv E (mat_add (mat_mul ?BW bases) P) = Some inner"
            "b' ?s2 = Some c'"
            "rel_change c' (mat_vec (mat_mul inner ?BW) (pseudo_data' y lo ?p)) = Inr d"
            "diffs s' = diffs ?s2 @ [d]"
            "b' s' = Some (Vec (mat_vec (mat_mul inner ?BW) (pseudo_data' y lo ?p)))"
            "(r = Inr Continue \<and> \<not> np_less d (tol ?s2) \<and> diagnostics s' = diagnostics ?s2)
                \<or> (r = Inr Return \<and> np_less d (tol ?s2)
                    \<and> diagnostics_from E bases inner ?BW ?W X y ?p s')"
        by blast
      then show ?thesis
      proof cases
        case err
        then show ?thesis by (simp add: same_frame_def diagnostics_def)
      next
        case upd
        let ?b = "mat_vec (mat_mul inner ?BW) (pseudo_data' y lo ?p)"
        have cc: "c' = c" using upd(2) c(1) by simp
        have cu: "coef_update sg E bases P y c = Some ?b"
          using upd(1) c(2) by (simp add: coef_update_def Let_def)
        have dp: "diagnostics_of_pass sg E bases P X y c s'"
          if "diagnostics_from E bases inner ?BW ?W X y ?p s'"
          using that upd(1) c(2) by (simp add: diagnostics_of_pass_def Let_def)
        have "same_frame s s'" using sf by (simp add: same_frame_def)
        moreover have "diffs s' = diffs s @ [d]" using upd(4) by simp
        moreover have "rel_change c ?b = Inr d" using upd(3) cc by simp
        moreover have "\<not> saturated (map sg (mat_vec bases (coef_vals c)))"
          using ns c(2) by simp
        moreover have "(r = Inr Continue \<and> \<not> np_less d (tol s) \<and> diagnostics s' = diagnostics s)
                \<or> (r = Inr Return \<and> np_less d (tol s)
                    \<and> diagnostics_of_pass sg E bases P X y c s')"
          using upd(6) dp by (auto simp: diagnostics_def)
        ultimately show ?thesis using c(1) cu upd(5) by blast
      qed
    qed
  qed
qed

lemma same_frame_trans: "same_frame s s1 \<Longrightarrow> same_frame s1 s' \<Longrightarrow> same_frame s s'"
  by (simp add: same_frame_def)


lemma bases_frame: "snd (bases' s X) = s\<lparr>n_bases' := n_bases' (snd (bases' s X))\<rparr>"
  by (simp add: bases'_def Let_def split: option.splits prod.splits sum.splits)

lemma init_coef_frame:
  "same_frame s (init_coef s B) \<and> diffs (init_coef s B) = diffs s
   \<and> diagnostics (init_coef s B) = diagnostics s \<and> b' (init_coef s B) \<noteq> None"
  by (simp add: init_coef_def same_frame_def diagnostics_def)

section \<open>A worked run of the fitting loop\<close>

lemma demo_knots:
  "map (\<lambda>feat. gen_knots demo_env feat (nat (n_knots demo_model)) True) (mat_T (shape1 demo_X) demo_X)
     = [[0, 1]]"
  by (simp add: gen_knots_def demo_env_def demo_model_def default_model_def demo_X_def
      mat_T_def shape1_def linspace_0_100_def np_min_def np_max_def upt_rec numeral_2_eq_2)

lemma demo_aug: "aug_knots [0, 1] 2 = [0, 0, 1, 1]"
  by (simp add: aug_knots_def np_min_def np_max_def numeral_2_eq_2)

lemma demo_row0: "b_spline_row 0 [0, 1] 2 = Inr [1, 0]"
  by (simp add: b_spline_row_def aug_knots_def np_min_def np_max_def haar_init_def
      haar_bases_def de_boor_step_def blend_def blend_right_def py_slice_def Let_def
      upt_rec numeral_2_eq_2)

lemma demo_row1: "b_spline_row 1 [0, 1] 2 = Inr [0, 1]"
  by (simp add: b_spline_row_def aug_knots_def np_min_def np_max_def haar_init_def
      haar_bases_def de_boor_step_def blend_def blend_right_def py_slice_def Let_def
      upt_rec numeral_2_eq_2)

lemma demo_basis: "b_spline_basis [0, 1] [0, 1] 2 = Inr [[1, 0], [0, 1]]"
  by (simp add: b_spline_basis_def demo_aug demo_row0 demo_row1)

lemma demo_bases:
  assumes "knots' s = Some [[0, 1]]" and "spline_order s = 2"
  shows "bases' s demo_X = (Inr [[1, 1, 0], [1, 0, 1]], s\<lparr>n_bases' := [1, 2]\<rparr>)"
  using assms
  by (simp add: bases'_def demo_X_def mat_T_def shape1_def
      demo_basis spline_shape1_def demo_aug hstack_def Let_def)

lemma demo_penalty:
  "assemble_penalty [1, 2] (6 / 10) 1
     = [[1 / 10 ^ 7, 0, 0], [0, 6 / 10 + 1 / 10 ^ 7, - (6 / 10)], [0, - (6 / 10), 6 / 10 + 1 / 10 ^ 7]]"
  by code_simp

lemma demo_P:
  assumes "n_bases' s = [1, 2]" and "lam s = 6 / 10" and "diff_order s = 1"
    and "b' s = Some c" and "length (coef_vals c) = 3"
  shows "P' s = Inr [[1 / 10 ^ 7, 0, 0], [0, 6 / 10 + 1 / 10 ^ 7, - (6 / 10)],
                     [0, - (6 / 10), 6 / 10 + 1 / 10 ^ 7]]"
proof -
  have "P' s = Inr (assemble_penalty (n_bases' s) (lam s) (nat (diff_order s)))"
    by (rule P_refines [OF _ assms(4)]) (simp_all add: assms)
  then show ?thesis unfolding assms(1,2,3) using demo_penalty by simp
qed

lemma demo_proba: "map proba' (mat_vec [[1, 1, 0], [1, 0, 1]] [0, 0, 0]) = [1 / 2, 1 / 2]"
  by (simp add: mat_vec_def dotp_def proba'_def)

lemma demo_W: "diags (map (\<lambda>p. p * (1 - p)) [1 / 2, 1 / 2]) = [[1 / 4, 0], [0, 1 / 4]]"
  by (simp add: diags_def upt_rec numeral_2_eq_2)

lemma demo_BW:
  "mat_mul (mat_T (shape1 [[1, 1, 0], [1, 0, 1]]) [[1, 1, 0], [1, 0, 1]])
           [[1 / 4, 0], [0, 1 / 4]]
     = [[1 / 4, 1 / 4], [1 / 4, 0], [0, 1 / 4]]"
  by (simp add: mat_mul_def mat_mul_T_def mat_T_def shape1_def dotp_def
      upt_rec numeral_2_eq_2 numeral_3_eq_3)

lemma demo_A:
  "mat_add (mat_mul [[1 / 4, 1 / 4], [1 / 4, 0], [0, 1 / 4]] [[1, 1, 0], [1, 0, 1]])
           [[1 / 10 ^ 7, 0, 0], [0, 6 / 10 + 1 / 10 ^ 7, - (6 / 10)],
            [0, - (6 / 10), 6 / 10 + 1 / 10 ^ 7]]
     = [[5000001 / 10000000, 1 / 4, 1 / 4],
        [1 / 4, 8500001 / 10000000, - (3 / 5)],
        [1 / 4, - (3 / 5), 8500001 / 10000000]]"
  by (simp add: mat_mul_def mat_mul_T_def mat_T_def shape1_def mat_add_def dotp_def
      upt_rec numeral_2_eq_2 numeral_3_eq_3)

lemma demo_inverse:
  "inverse_upto_3 [[5000001 / 10000000, 1 / 4, 1 / 4],
                   [1 / 4, 8500001 / 10000000, - (3 / 5)],
                   [1 / 4, - (3 / 5), 8500001 / 10000000]]
     = Some [[25000010000000 / 7500001, - (25000000000000 / 7500001), - (25000000000000 / 7500001)],
             [- (25000000000000 / 7500001), 362500135000010000000 / 108750022000001,
              362500060000000000000 / 108750022000001],
             [- (25000000000000 / 7500001), 362500060000000000000 / 108750022000001,
              362500135000010000000 / 108750022000001]]"
  by (simp add: inverse_upto_3_def Let_def)

lemma demo_env_fields:
  "sparse_inv demo_env = inverse_upto_3" "np_shuffle demo_env = (\<lambda>idxs. idxs)"
  by (simp_all add: demo_env_def)

lemma demo_pseudo:
  "pseudo_data' demo_y (mat_vec [[1, 1, 0], [1, 0, 1]] [0, 0, 0]) [1 / 2, 1 / 2] = [2, 2]"
  by (simp add: pseudo_data'_def demo_y_def mat_vec_def dotp_def np_zip_def)

lemma demo_b_new:
  "mat_vec (mat_mul
       [[25000010000000 / 7500001, - (25000000000000 / 7500001), - (25000000000000 / 7500001)],
        [- (25000000000000 / 7500001), 362500135000010000000 / 108750022000001,
         362500060000000000000 / 108750022000001],
        [- (25000000000000 / 7500001), 362500060000000000000 / 108750022000001,
         362500135000010000000 / 108750022000001]]
       [[1 / 4, 1 / 4], [1 / 4, 0], [0, 1 / 4]]) [2, 2]
     = [10000000 / 7500001, 5000000 / 7500001, 5000000 / 7500001]"
  by (simp add: mat_vec_def mat_mul_def mat_mul_T_def mat_T_def shape1_def dotp_def
      upt_rec numeral_2_eq_2)

lemma demo_coef_update:
  "coef_update proba' demo_env [[1, 1, 0], [1, 0, 1]]
       [[1 / 10 ^ 7, 0, 0], [0, 6 / 10 + 1 / 10 ^ 7, - (6 / 10)],
        [0, - (6 / 10), 6 / 10 + 1 / 10 ^ 7]] demo_y (Col [0, 0, 0])
     = Some [10000000 / 7500001, 5000000 / 7500001, 5000000 / 7500001]"
  by (simp only: coef_update_def Let_def coef_vals.simps demo_proba demo_W demo_BW demo_A
      demo_env_fields demo_inverse option.case demo_pseudo demo_b_new)



lemma norm2_squared: "(norm2 v)\<^sup>2 = sum_list (map (\<lambda>x. x * x) v)"
proof -
  have "0 \<le> sum_list (map (\<lambda>x. x * x) v)" by (induction v) simp_all
  then show ?thesis by (simp add: norm2_def)
qed


lemma sum_squares_concat_replicate:
  "sum_list (map (\<lambda>x. x * x) (concat (replicate k v))) = real k * sum_list (map (\<lambda>x. x * x) v)"
  by (induction k) (simp_all add: algebra_simps)

lemma np_sub_zero_column:
  "np_sub (Col (replicate k 0)) b = Inr (concat (replicate k (map ((-) 0) b)))"
  by (simp add: map_replicate)

lemma rel_change_zero_column:
  assumes "norm2 b \<noteq> 0"
  shows "rel_change (Col (replicate k 0)) b = Inr (Fin (sqrt (real k)))"
proof -
  let ?S = "sum_list (map (\<lambda>x. x * x) b)"
  have "norm2 (concat (replicate k (map ((-) 0) b))) = sqrt (real k * ?S)"
    by (simp add: norm2_def sum_squares_concat_replicate comp_def)
  also have "\<dots> = sqrt (real k) * norm2 b"
    by (simp add: norm2_def real_sqrt_mult)
  finally show ?thesis
    using assms by (simp add: rel_change_def np_sub_zero_column np_div_def)
qed

lemma pirls_body_step:
  assumes c: "b' s = Some c" and dim: "shape1 bases = length (coef_vals c)"
    and ly: "length y = length bases" and l1: "length bases \<noteq> 1"
    and ns: "\<not> saturated (map sg (mat_vec bases (coef_vals c)))"
    and cu: "coef_update sg E bases P y c = Some b" and rc: "rel_change c b = Inr d"
  shows "\<exists>s'. pirls_body_fl sg E bases P X y s
                = (Inr (if np_less d (tol s) then Return else Continue), s')
             \<and> b' s' = Some (Vec b) \<and> diffs s' = diffs s @ [d]"
proof -
  let ?lo = "mat_vec bases (coef_vals c)"
  let ?p = "map sg ?lo"
  let ?W = "diags (map (\<lambda>p. p * (1 - p)) ?p)"
  let ?BW = "mat_mul (mat_T (shape1 bases) bases) ?W"
  let ?s2 = "s\<lparr>acc := acc s @ [accuracy' y ?p], nll := nll s @ [np_uminus (loglik y ?p)]\<rparr>"
  have bd: "bases_dot bases (b' s) = Inr ?lo"
    using c dim by (simp add: bases_dot_def)
  have w: "weights' ?p = Inr ?W"
    using l1 by (simp add: weights'_def mat_vec_def)
  obtain inner where inner: "sparse_inv E (mat_add (mat_mul ?BW bases) P) = Some inner"
    and b: "b = mat_vec (mat_mul inner ?BW) (pseudo_data' y ?lo ?p)"
    using cu by (auto simp: coef_update_def Let_def split: option.splits)
  have body: "pirls_body_fl sg E bases P X y s = pirls_update E bases P X y ?lo ?p ?s2"
    using bd ly ns
    by (simp add: pirls_body_fl_def Let_def mat_vec_def np_compatible_def)
  let ?s3 = "?s2\<lparr>diffs := diffs ?s2 @ [d], b' := Some (Vec b)\<rparr>"
  show ?thesis
  proof (cases "np_less d (tol s)")
    case False
    have "pirls_update E bases P X y ?lo ?p ?s2 = (Inr Continue, ?s3)"
      using w inner b c rc False by (simp add: pirls_update_def Let_def)
    with body False show ?thesis by simp
  next
    case True
    obtain s4 where s4: "pirls_diagnostics E bases inner ?BW ?W X y ?p ?s3 = (Inr Return, s4)"
        "b' s4 = b' ?s3" "diffs s4 = diffs ?s3"
      using pirls_diagnostics_returns [of E bases inner ?BW ?W X y ?p ?s3] by blast
    have "pirls_update E bases P X y ?lo ?p ?s2 = (Inr Return, s4)"
      using w inner b c rc True s4(1) by (simp add: pirls_update_def Let_def)
    with body True s4 show ?thesis by simp
  qed
qed


lemma demo_rel_change:
  "rel_change (Col [0, 0, 0]) [10000000 / 7500001, 5000000 / 7500001, 5000000 / 7500001]
     = Inr (Fin (sqrt 3))"
proof -
  have "(norm2 [10000000 / 7500001, 5000000 / 7500001, 5000000 / 7500001])\<^sup>2 \<noteq> 0"
    unfolding norm2_squared by simp
  then have "norm2 [10000000 / 7500001, 5000000 / 7500001, 5000000 / 7500001] \<noteq> 0"
    by auto
  from rel_change_zero_column [OF this, of 3] show ?thesis
    by (simp add: numeral_3_eq_3)
qed

lemma demo_pirls_unfold:
  assumes k: "knots' s = Some [[0, 1]]" and o: "spline_order s = 2"
    and l: "lam s = 6 / 10" and d: "diff_order s = 1" and n: "n_iter s = 1"
    and c: "b' (init_coef (s\<lparr>n_bases' := [1, 2]\<rparr>) [[1, 1, 0], [1, 0, 1]]) = Some c"
    and lc: "length (coef_vals c) = 3"
  shows "pirls_fl sg demo_env s demo_X demo_y
           = pirls_loop_fl sg demo_env (Suc 0) [[1, 1, 0], [1, 0, 1]]
               [[1 / 10 ^ 7, 0, 0], [0, 6 / 10 + 1 / 10 ^ 7, - (6 / 10)],
                [0, - (6 / 10), 6 / 10 + 1 / 10 ^ 7]] demo_X demo_y
               (init_coef (s\<lparr>n_bases' := [1, 2]\<rparr>) [[1, 1, 0], [1, 0, 1]])"
proof -
  let ?B = "[[1, 1, 0], [1, 0, 1]] :: matrix"
  let ?s2 = "init_coef (s\<lparr>n_bases' := [1, 2]\<rparr>) ?B"
  have fr: "n_bases' ?s2 = [1, 2]" "lam ?s2 = 6 / 10" "diff_order ?s2 = 1"
    "nat (n_iter ?s2) = Suc 0"
    using l d n by (simp_all add: init_coef_def)
  have P: "P' ?s2 = Inr [[1 / 10 ^ 7, 0, 0], [0, 6 / 10 + 1 / 10 ^ 7, - (6 / 10)],
                          [0, - (6 / 10), 6 / 10 + 1 / 10 ^ 7]]"
    by (rule demo_P [OF fr(1,2,3) c lc])
  show ?thesis
    by (simp only: pirls_fl_def demo_bases [OF k o] prod.case sum.case Let_def P fr(4))
qed


lemma sqrt_3_not_small: "\<not> sqrt 3 < 1 / 10 ^ 5"
proof -
  have "1 \<le> sqrt 3" by (rule real_sqrt_ge_one) simp
  moreover have "(1 / 10 ^ 5 :: real) < 1" by simp
  ultimately show ?thesis by linarith
qed

lemma demo_pirls_run:
  assumes k: "knots' s = Some [[0, 1]]" and o: "spline_order s = 2"
    and l: "lam s = 6 / 10" and d: "diff_order s = 1" and n: "n_iter s = 1"
    and b: "b' s = None" and ds: "diffs s = []"
  shows "fst (pirls_fl proba' demo_env s demo_X demo_y)
           = Inr (if sqrt 3 < tol s then Converged else Exhausted)
       \<and> diffs (snd (pirls_fl proba' demo_env s demo_X demo_y)) = [Fin (sqrt 3)]
       \<and> b' (snd (pirls_fl proba' demo_env s demo_X demo_y))
           = Some (Vec [10000000 / 7500001, 5000000 / 7500001, 5000000 / 7500001])"
proof -
  let ?B = "[[1, 1, 0], [1, 0, 1]] :: matrix"
  let ?P = "[[1 / 10 ^ 7, 0, 0], [0, 6 / 10 + 1 / 10 ^ 7, - (6 / 10)],
             [0, - (6 / 10), 6 / 10 + 1 / 10 ^ 7]] :: matrix"
  let ?b = "[10000000 / 7500001, 5000000 / 7500001, 5000000 / 7500001] :: real list"
  define s2 where "s2 = init_coef (s\<lparr>n_bases' := [1, 2]\<rparr>) ?B"
  have c: "b' s2 = Some (Col [0, 0, 0])"
    using b by (simp add: s2_def init_coef_def shape1_def numeral_3_eq_3)
  have tl: "tol s2 = tol s" and d0: "diffs s2 = []"
    using ds by (simp_all add: s2_def init_coef_def)
  have run: "pirls_fl proba' demo_env s demo_X demo_y
               = pirls_loop_fl proba' demo_env (Suc 0) ?B ?P demo_X demo_y s2"
    unfolding s2_def
    by (rule demo_pirls_unfold [OF k o l d n c [unfolded s2_def]]) simp
  have ns: "\<not> saturated (map proba' (mat_vec ?B (coef_vals (Col [0, 0, 0]))))"
    by (rule not_saturated_proba)
  have "shape1 ?B = length (coef_vals (Col [0, 0, 0]))" by (simp add: shape1_def)
  moreover have "length demo_y = length ?B" "length ?B \<noteq> 1" by (simp_all add: demo_y_def)
  ultimately obtain s3 where
      s3: "pirls_body_fl proba' demo_env ?B ?P demo_X demo_y s2
             = (Inr (if np_less (Fin (sqrt 3)) (tol s2) then Return else Continue), s3)"
      "b' s3 = Some (Vec ?b)" "diffs s3 = diffs s2 @ [Fin (sqrt 3)]"
    using pirls_body_step [where X = demo_X, OF c _ _ _ ns demo_coef_update demo_rel_change]
    by blast
  have loop: "pirls_loop_fl proba' demo_env (Suc 0) ?B ?P demo_X demo_y s2
          = (Inr (if sqrt 3 < tol s then Converged else Exhausted), s3)"
  proof (cases "sqrt 3 < tol s")
    case True
    have body: "pirls_body_fl proba' demo_env ?B ?P demo_X demo_y s2 = (Inr Return, s3)"
      using s3(1) tl True by simp
    show ?thesis
      by (simp only: pirls_loop_fl.simps body prod.case sum.case flow.case True if_True)
  next
    case False
    have body: "pirls_body_fl proba' demo_env ?B ?P demo_X demo_y s2 = (Inr Continue, s3)"
      using s3(1) tl False by simp
    show ?thesis
      by (simp only: pirls_loop_fl.simps body prod.case sum.case flow.case False if_False)
  qed
  show ?thesis unfolding run loop using s3(2,3) d0 by simp
qed


lemma demo_fit_unfold:
  assumes "n_knots s = 0"
  shows "fit_fl sg demo_env s demo_X demo_y
           = pirls_fl sg demo_env (s\<lparr>knots' := Some [[0, 1]]\<rparr>) demo_X demo_y"
proof -
  have "map (\<lambda>feat. gen_knots demo_env feat (nat (n_knots s)) True) (mat_T (shape1 demo_X) demo_X)
          = [[0, 1]]"
    using demo_knots assms by (simp add: demo_model_def)
  then show ?thesis by (simp only: fit_fl_def)
qed



lemma demo_fit_run:
  "fst (fit demo_env demo_model demo_X demo_y) = Inr Exhausted
   \<and> diffs (snd (fit demo_env demo_model demo_X demo_y)) = [Fin (sqrt 3)]
   \<and> b' (snd (fit demo_env demo_model demo_X demo_y))
       = Some (Vec [10000000 / 7500001, 5000000 / 7500001, 5000000 / 7500001])"
proof -
  let ?se = "demo_model\<lparr>knots' := Some [[0, 1]]\<rparr>"
  have n: "n_knots demo_model = 0" by (simp add: demo_model_def)
  have f: "fit demo_env demo_model demo_X demo_y = pirls_fl proba' demo_env ?se demo_X demo_y"
    unfolding fit_def by (rule demo_fit_unfold [OF n])
  have fe: "knots' ?se = Some [[0, 1]]" "spline_order ?se = 2" "lam ?se = 6 / 10"
    "diff_order ?se = 1" "n_iter ?se = 1" "b' ?se = None" "diffs ?se = []"
    "tol ?se = 1 / 10 ^ 5"
    by (simp_all add: demo_model_def default_model_def)
  show ?thesis
    unfolding f using demo_pirls_run [OF fe(1-7)] sqrt_3_not_small unfolding fe(8) by simp
qed

section \<open>Exits of the fitting loop\<close>



text \<open>
  Claim C6. Every pass should record \<open>\<parallel>b_old - b_new\<parallel> / \<parallel>b_new\<parallel>\<close>. In the first pass of a
  fresh fit \<^verbatim>\<open>b_\<close> is the column \<^verbatim>\<open>np.zeros((k, 1))\<close> and \<^verbatim>\<open>b_new\<close> is flat, so line 197
  takes the norm of the \<open>k \<times> k\<close> matrix of pairwise differences. On the small run (two
  samples, spline order 2, \<open>k = 3\<close>) the new coefficients are \<open>10000000/7500001\<close>,
  \<open>5000000/7500001\<close> and \<open>5000000/7500001\<close>: the recorded change is \<open>\<surd>3\<close>, and the
  relative change of the claim is 1.
\<close>

theorem first_relative_change_is_broadcast:
  "fst (fit demo_env demo_model demo_X demo_y) = Inr Exhausted
   \<and> b' (snd (fit demo_env demo_model demo_X demo_y))
       = Some (Vec [10000000 / 7500001, 5000000 / 7500001, 5000000 / 7500001])
   \<and> diffs (snd (fit demo_env demo_model demo_X demo_y)) = [Fin (sqrt 3)]
   \<and> np_div (norm2 (map2 (-) [0, 0, 0]
                        [10000000 / 7500001, 5000000 / 7500001, 5000000 / 7500001]))
            (norm2 [10000000 / 7500001, 5000000 / 7500001, 5000000 / 7500001]) = Fin 1"
proof -
  let ?b = "[10000000 / 7500001, 5000000 / 7500001, 5000000 / 7500001] :: real list"
  have "(norm2 ?b)\<^sup>2 \<noteq> 0" unfolding norm2_squared by simp
  then have n0: "norm2 ?b \<noteq> 0" by auto
  have eq: "norm2 (map2 (-) [0, 0, 0] ?b) = norm2 ?b" by (simp add: norm2_def)
  have "np_div (norm2 (map2 (-) [0, 0, 0] ?b)) (norm2 ?b) = Fin 1"
    unfolding eq using n0 by (simp add: np_div_def)
  with demo_fit_run show ?thesis by blast
qed

section \<open>What prediction changes\<close>

lemma length_haar_bases: "length (haar_bases x t) = length t - 1"
  by (simp add: haar_bases_def)

lemma haar_init_Inr_iff:
  "(\<exists>r. haar_init x aug order = Inr r) = (order < length aug - 1)"
  by (auto simp: haar_init_def Let_def length_haar_bases)

lemma b_spline_row_Inr_iff:
  "(\<exists>r. b_spline_row x ks order = Inr r) = basis_fits ks order"
proof (cases "ks = [] \<or> order = 0")
  case True
  then show ?thesis by (auto simp: b_spline_row_def basis_fits_def)
next
  case False
  show ?thesis
  proof (cases "haar_init x (aug_knots ks order) order")
    case (Inl e)
    with haar_init_Inr_iff [of x "aug_knots ks order" order] False show ?thesis
      by (simp add: b_spline_row_def basis_fits_def Let_def)
  next
    case (Inr r)
    with haar_init_Inr_iff [of x "aug_knots ks order" order] False show ?thesis
      by (simp add: b_spline_row_def basis_fits_def Let_def)
  qed
qed

lemma sequence_Inr:
  "(\<And>r. r \<in> set rs \<Longrightarrow> \<exists>v. r = Inr v) \<Longrightarrow> \<exists>vs. sequence rs = Inr vs"
proof (induction rs)
  case Nil
  show ?case by simp
next
  case (Cons r rs)
  from Cons.prems [of r] obtain v where v: "r = Inr v" by auto
  from Cons.IH Cons.prems obtain vs where "sequence rs = Inr vs" by auto
  with v show ?case by simp
qed

lemma b_spline_basis_Inr_iff:
  "(\<exists>blk. b_spline_basis x ks order = Inr blk) = basis_fits ks order"
proof (cases "basis_fits ks order")
  case True
  have "\<exists>vs. sequence (map (\<lambda>xi. b_spline_row xi ks order) x) = Inr vs"
  proof (rule sequence_Inr)
    fix r
    assume "r \<in> set (map (\<lambda>xi. b_spline_row xi ks order) x)"
    then obtain xi where "r = b_spline_row xi ks order" by auto
    with b_spline_row_Inr_iff [of xi ks order] True show "\<exists>v. r = Inr v" by simp
  qed
  with True show ?thesis by (auto simp: b_spline_basis_def basis_fits_def)
next
  case False
  then show ?thesis by (auto simp: b_spline_basis_def basis_fits_def)
qed

lemma bases_loop_Inr_iff:
  "(\<exists>bl. fst (bases_loop zs order blocks nb) = Inr bl)
     = list_all (\<lambda>ks. basis_fits ks order) (map snd zs)"
proof (induction zs arbitrary: blocks nb)
  case Nil
  show ?case by simp
next
  case (Cons z zs)
  obtain x ks where z: "z = (x, ks)" by (cases z)
  show ?case
  proof (cases "b_spline_basis x ks order")
    case (Inl e)
    with b_spline_basis_Inr_iff [of x ks order] have "\<not> basis_fits ks order" by simp
    with Inl z show ?thesis by simp
  next
    case (Inr blk)
    with b_spline_basis_Inr_iff [of x ks order] have "basis_fits ks order" by auto
    with Inr z Cons.IH [of "blocks @ [blk]" "nb @ [spline_shape1 ks order]"] show ?thesis
      by simp
  qed
qed

lemma bases_Inr_iff:
  assumes "knots' s = Some K"
  shows "(\<exists>B. fst (bases' s X) = Inr B)
           = list_all (\<lambda>ks. basis_fits ks (nat (spline_order s))) (take (shape1 X) K)"
proof -
  let ?l = "bases_loop (zip (mat_T (shape1 X) X) K) (nat (spline_order s))
              [replicate (length X) [1]] [1]"
  have "(\<exists>B. fst (bases' s X) = Inr B) = (\<exists>bl. fst ?l = Inr bl)"
    using assms by (cases ?l) (auto simp: bases'_def Let_def split: sum.splits)
  also have "\<dots> = list_all (\<lambda>ks. basis_fits ks (nat (spline_order s)))
                       (map snd (zip (mat_T (shape1 X) X) K))"
    by (rule bases_loop_Inr_iff)
  also have "map snd (zip (mat_T (shape1 X) X) K) = take (shape1 X) K"
    by (simp add: map_snd_zip_take min_def mat_T_def)
  finally show ?thesis .
qed

lemma bases_loop_widths:
  "bases_loop zs order blocks nb = (Inr bl, nb')
     \<Longrightarrow> nb' = nb @ map (\<lambda>(x, ks). spline_shape1 ks order) zs"
proof (induction zs arbitrary: blocks nb)
  case Nil
  then show ?case by simp
next
  case (Cons z zs)
  obtain x ks where z: "z = (x, ks)" by (cases z)
  from Cons.prems z obtain blk where blk: "b_spline_basis x ks order = Inr blk"
    by (cases "b_spline_basis x ks order") auto
  with Cons.prems z have "bases_loop zs order (blocks @ [blk]) (nb @ [spline_shape1 ks order])
                           = (Inr bl, nb')"
    by simp
  from Cons.IH [OF this] z show ?case by simp
qed

lemma map_snd_zip_mat_T:
  "map (\<lambda>(x, ks). f ks) (zip (mat_T d X) K) = map f (take d K)"
proof -
  have "map (\<lambda>(x, ks). f ks) (zip (mat_T d X) K) = map f (map snd (zip (mat_T d X) K))"
    by (simp add: case_prod_unfold)
  also have "map snd (zip (mat_T d X) K) = take (length (mat_T d X)) K"
    by (simp add: map_snd_zip_take min_def)
  finally show ?thesis by (simp add: mat_T_def)
qed

lemma bases_n_bases:
  assumes "fst (bases' s X) = Inr B" and "knots' s = Some K"
  shows "n_bases' (snd (bases' s X))
           = 1 # map (\<lambda>ks. spline_shape1 ks (nat (spline_order s))) (take (shape1 X) K)"
proof -
  obtain r nb where l: "bases_loop (zip (mat_T (shape1 X) X) K) (nat (spline_order s))
                         [replicate (length X) [1]] [1] = (r, nb)"
    by (cases "bases_loop (zip (mat_T (shape1 X) X) K) (nat (spline_order s))
                         [replicate (length X) [1]] [1]")
  with assms obtain bl where r: "r = Inr bl"
    by (cases r) (auto simp: bases'_def Let_def)
  from bases_loop_widths [OF l [unfolded r]]
  have "nb = [1] @ map (\<lambda>ks. spline_shape1 ks (nat (spline_order s))) (take (shape1 X) K)"
    by (simp only: map_snd_zip_mat_T)
  with l r assms(2) show ?thesis by (simp add: bases'_def Let_def)
qed

lemma predict_proba_state: "snd (predict_proba s X) = snd (bases' s X)"
  by (simp add: predict_proba_def log_odds'_def split: prod.splits sum.splits)

lemma pirls_loop_frame: "same_frame s (snd (pirls_loop_fl sg E n bases P X y s))"
proof (induction n arbitrary: s)
  case 0
  show ?case by (simp add: same_frame_def)
next
  case (Suc n)
  obtain r s1 where body: "pirls_body_fl sg E bases P X y s = (r, s1)"
    by (cases "pirls_body_fl sg E bases P X y s")
  from pirls_body_cases [OF body] have sf: "same_frame s s1" by (rule conjunct1)
  show ?case
  proof (cases r)
    case (Inl e)
    with body sf show ?thesis by simp
  next
    case (Inr f)
    with body sf Suc.IH [of s1] show ?thesis
      by (cases f) (auto intro: same_frame_trans)
  qed
qed

lemma pirls_frame:
  "knots' (snd (pirls_fl sg E s X y)) = knots' s
   \<and> spline_order (snd (pirls_fl sg E s X y)) = spline_order s
   \<and> n_bases' (snd (pirls_fl sg E s X y)) = n_bases' (snd (bases' s X))"
proof -
  obtain rB s1 where b: "bases' s X = (rB, s1)" by (cases "bases' s X")
  have s1: "s1 = s\<lparr>n_bases' := n_bases' s1\<rparr>"
    using bases_frame [of s X] b by simp
  have f1: "knots' s1 = knots' s" "spline_order s1 = spline_order s"
    by (subst s1, simp)+
  show ?thesis
  proof (cases rB)
    case (Inl e)
    with b f1 show ?thesis by (simp add: pirls_fl_def)
  next
    case (Inr B)
    let ?s2 = "init_coef s1 B"
    have f2: "knots' ?s2 = knots' s" "spline_order ?s2 = spline_order s"
      "n_bases' ?s2 = n_bases' s1"
      using init_coef_frame [of s1 B] f1 by (simp_all add: same_frame_def)
    show ?thesis
    proof (cases "P' ?s2")
      case (Inl e)
      with b Inr f2 show ?thesis by (simp add: pirls_fl_def Let_def)
    next
      case (Inr P)
      have "same_frame ?s2 (snd (pirls_loop_fl sg E (nat (n_iter ?s2)) B P X y ?s2))"
        by (rule pirls_loop_frame)
      with b \<open>rB = Inr B\<close> Inr f2 show ?thesis
        by (simp add: pirls_fl_def Let_def same_frame_def)
    qed
  qed
qed

lemma pirls_Inr_bases:
  "fst (pirls_fl sg E s X y) = Inr ex \<Longrightarrow> \<exists>B. fst (bases' s X) = Inr B"
proof -
  assume a: "fst (pirls_fl sg E s X y) = Inr ex"
  obtain rB s1 where b: "bases' s X = (rB, s1)" by (cases "bases' s X")
  with a obtain B where "rB = Inr B" by (cases rB) (auto simp: pirls_fl_def)
  with b show ?thesis by simp
qed

lemma fit_frame:
  assumes "fst (fit_fl sg E s0 X0 y) = Inr ex"
  shows "\<exists>K. knots' (snd (fit_fl sg E s0 X0 y)) = Some K
            \<and> spline_order (snd (fit_fl sg E s0 X0 y)) = spline_order s0
            \<and> list_all (\<lambda>ks. basis_fits ks (nat (spline_order s0))) (take (shape1 X0) K)
            \<and> n_bases' (snd (fit_fl sg E s0 X0 y))
                = 1 # map (\<lambda>ks. spline_shape1 ks (nat (spline_order s0))) (take (shape1 X0) K)"
proof -
  define K where "K = map (\<lambda>feat. gen_knots E feat (nat (n_knots s0)) True) (mat_T (shape1 X0) X0)"
  define sk where "sk = s0\<lparr>knots' := Some K\<rparr>"
  have f: "fit_fl sg E s0 X0 y = pirls_fl sg E sk X0 y" by (simp add: fit_fl_def sk_def K_def)
  have k: "knots' sk = Some K" and o: "spline_order sk = spline_order s0"
    by (simp_all add: sk_def)
  from assms obtain B where B: "fst (bases' sk X0) = Inr B"
    unfolding f using pirls_Inr_bases by blast
  have nb: "n_bases' (snd (bases' sk X0))
          = 1 # map (\<lambda>ks. spline_shape1 ks (nat (spline_order sk))) (take (shape1 X0) K)"
    by (rule bases_n_bases [OF B k])
  have fits: "list_all (\<lambda>ks. basis_fits ks (nat (spline_order s0))) (take (shape1 X0) K)"
    using bases_Inr_iff [OF k, of X0] B unfolding o by blast
  have "knots' (snd (pirls_fl sg E sk X0 y)) = Some K
     \<and> spline_order (snd (pirls_fl sg E sk X0 y)) = spline_order s0
     \<and> n_bases' (snd (pirls_fl sg E sk X0 y))
         = 1 # map (\<lambda>ks. spline_shape1 ks (nat (spline_order s0))) (take (shape1 X0) K)"
    using pirls_frame [of sg E sk X0 y] nb k o by simp
  with fits show ?thesis unfolding f by blast
qed

text \<open>
  Claim C10. \<^verbatim>\<open>predict_proba\<close> and \<^verbatim>\<open>predict\<close> never change \<^verbatim>\<open>b_\<close> or \<^verbatim>\<open>knots_\<close>, whether
  they return or raise, and both leave the same state. After a \<^verbatim>\<open>fit\<close> that ended
  without an exception, whatever the rounding of the probabilities in it, a call of
  \<^verbatim>\<open>predict_proba\<close> on a matrix with as many columns as the fitting data leaves in
  \<^verbatim>\<open>n_bases_\<close> the value that \<^verbatim>\<open>fit\<close> left there: whether \<^verbatim>\<open>b_spline_basis\<close> raises depends
  on the knots and the spline order only, so the basis of the new matrix is built for
  every feature, as it was in the fit.
\<close>

theorem predict_proba_frame:
  "b' (snd (predict_proba s X)) = b' s \<and> knots' (snd (predict_proba s X)) = knots' s
   \<and> snd (predict s X) = snd (predict_proba s X)
   \<and> (fst (fit_fl sg E s0 X0 y) = Inr ex \<longrightarrow> shape1 X = shape1 X0
        \<longrightarrow> n_bases' (snd (predict_proba (snd (fit_fl sg E s0 X0 y)) X))
              = n_bases' (snd (fit_fl sg E s0 X0 y)))"
proof -
  have fr: "snd (predict_proba s X) = s\<lparr>n_bases' := n_bases' (snd (predict_proba s X))\<rparr>"
    unfolding predict_proba_state by (rule bases_frame)
  have 1: "b' (snd (predict_proba s X)) = b' s"
    using arg_cong [OF fr, of b'] by simp
  have 2: "knots' (snd (predict_proba s X)) = knots' s"
    using arg_cong [OF fr, of knots'] by simp
  have 3: "snd (predict s X) = snd (predict_proba s X)"
    by (simp add: predict_def split: prod.splits sum.splits)
  have 4: "n_bases' (snd (predict_proba (snd (fit_fl sg E s0 X0 y)) X))
             = n_bases' (snd (fit_fl sg E s0 X0 y))"
    if a: "fst (fit_fl sg E s0 X0 y) = Inr ex" and sh: "shape1 X = shape1 X0"
  proof -
    define s1 where "s1 = snd (fit_fl sg E s0 X0 y)"
    from fit_frame [OF a] obtain K where K: "knots' s1 = Some K"
        "spline_order s1 = spline_order s0"
        "list_all (\<lambda>ks. basis_fits ks (nat (spline_order s0))) (take (shape1 X0) K)"
        "n_bases' s1 = 1 # map (\<lambda>ks. spline_shape1 ks (nat (spline_order s0))) (take (shape1 X0) K)"
      unfolding s1_def by blast
    from bases_Inr_iff [OF K(1), of X] K(3) obtain B where "fst (bases' s1 X) = Inr B"
      unfolding K(2) sh by blast
    from bases_n_bases [OF this K(1)]
    have "n_bases' (snd (predict_proba s1 X)) = n_bases' s1"
      unfolding predict_proba_state K(2,4) sh .
    then show ?thesis unfolding s1_def .
  qed
  from 1 2 3 4 show ?thesis by blast
qed

lemma demo_fit_frame:
  "knots' (snd (fit demo_env demo_model demo_X demo_y)) = Some [[0, 1]]
   \<and> spline_order (snd (fit demo_env demo_model demo_X demo_y)) = 2
   \<and> n_bases' (snd (fit demo_env demo_model demo_X demo_y)) = [1, 2]"
proof -
  let ?se = "demo_model\<lparr>knots' := Some [[0, 1]]\<rparr>"
  have n: "n_knots demo_model = 0" by (simp add: demo_model_def)
  have f: "fit demo_env demo_model demo_X demo_y = pirls_fl proba' demo_env ?se demo_X demo_y"
    unfolding fit_def by (rule demo_fit_unfold [OF n])
  have k: "knots' ?se = Some [[0, 1]]" and o: "spline_order ?se = 2"
    by (simp_all add: demo_model_def)
  have nb: "n_bases' (snd (bases' ?se demo_X)) = [1, 2]"
    unfolding demo_bases [OF k o] by simp
  show ?thesis
    unfolding f using pirls_frame [of proba' demo_env ?se demo_X demo_y] k o nb by simp
qed

lemma demo_basis_below: "b_spline_basis [- 1] [0, 1] 2 = Inr [[0, 0]]"
proof -
  have "b_spline_row (- 1) [0, 1] 2 = Inr [0, 0]"
    by (simp add: b_spline_row_def aug_knots_def np_min_def np_max_def haar_init_def
        haar_bases_def de_boor_step_def blend_def blend_right_def py_slice_def Let_def
        upt_rec numeral_2_eq_2)
  then show ?thesis by (simp add: b_spline_basis_def demo_aug)
qed

lemma demo_predict:
  assumes "knots' s = Some [[0, 1]]" and "spline_order s = 2"
    and "b' s = Some (Vec [c0, c1, c2])"
  shows "fst (predict_proba s [[- 1]]) = Inr [proba' c0]"
  using assms
  by (simp add: predict_proba_def log_odds'_def bases'_def mat_T_def shape1_def
      demo_basis_below spline_shape1_def demo_aug hstack_def Let_def
      bases_dot_def mat_vec_def dotp_def)

theorem predict_proba_frame_witness:
  "fst (fit demo_env demo_model demo_X demo_y) = Inr Exhausted
   \<and> shape1 [[- 1]] = shape1 demo_X
   \<and> n_bases' (snd (fit demo_env demo_model demo_X demo_y)) = [1, 2]
   \<and> fst (predict_proba (snd (fit demo_env demo_model demo_X demo_y)) [[- 1]])
       = Inr [proba' (10000000 / 7500001)]
   \<and> n_bases' (snd (predict_proba (snd (fit demo_env demo_model demo_X demo_y)) [[- 1]]))
       = [1, 2]
   \<and> b' (snd (predict_proba (snd (fit demo_env demo_model demo_X demo_y)) [[- 1]]))
       = Some (Vec [10000000 / 7500001, 5000000 / 7500001, 5000000 / 7500001])
   \<and> knots' (snd (predict_proba (snd (fit demo_env demo_model demo_X demo_y)) [[- 1]]))
       = Some [[0, 1]]"
proof -
  define s1 where "s1 = snd (fit demo_env demo_model demo_X demo_y)"
  have f: "fit_fl proba' demo_env demo_model demo_X demo_y
             = fit demo_env demo_model demo_X demo_y"
    by (simp add: fit_def)
  have ex: "fst (fit demo_env demo_model demo_X demo_y) = Inr Exhausted"
    and b: "b' s1 = Some (Vec [10000000 / 7500001, 5000000 / 7500001, 5000000 / 7500001])"
    using demo_fit_run unfolding s1_def by blast+
  have k: "knots' s1 = Some [[0, 1]]" and o: "spline_order s1 = 2"
    and nb: "n_bases' s1 = [1, 2]"
    using demo_fit_frame unfolding s1_def by blast+
  have sh: "shape1 [[- 1]] = shape1 demo_X" by (simp add: shape1_def demo_X_def)
  have pr: "fst (predict_proba s1 [[- 1]]) = Inr [proba' (10000000 / 7500001)]"
    by (rule demo_predict [OF k o b])
  note T = predict_proba_frame
             [where s = s1 and X = "[[- 1]]" and sg = proba' and E = demo_env
                and ?s0.0 = demo_model and ?X0.0 = demo_X and y = demo_y and ex = Exhausted,
              unfolded f, folded s1_def]
  from T ex sh have "b' (snd (predict_proba s1 [[- 1]])) = b' s1"
    "knots' (snd (predict_proba s1 [[- 1]])) = knots' s1"
    "n_bases' (snd (predict_proba s1 [[- 1]])) = n_bases' s1"
    unfolding s1_def by blast+
  with ex sh pr b k nb show ?thesis unfolding s1_def by simp
qed

section \<open>The spline basis from the smallest knot upward\<close>

text \<open>
  What the recursion does away from the defect of line 31. For at least two distinct
  knots, a spline order for which column \<open>order\<close> exists, and any sample at or above the
  smallest knot, inside the knots or beyond the largest one, the indicator row is the
  unit vector of one interval of positive width, at a column between \<open>order - 1\<close> and \<open>len(aug) - order - 1\<close>; every
  pass of the recursion keeps the sum of the row at 1 and widens its support by one
  column to the left. The row of the basis matrix therefore has \<open>len(knots) + order - 2\<close>
  entries that sum to 1 (lemma \<open>partition_of_unity_from_minimum\<close>).
\<close>

lemma de_boor_step_index:
  assumes lt: "length t = maxi + m" and lr: "length r = Suc maxi" and m: "1 \<le> m"
  shows "de_boor_step x t m maxi r =
           map (\<lambda>i. (if t ! (i + m - 1) = t ! i then 0
                      else (x - t ! i) / (t ! (i + m - 1) - t ! i) * r ! i)
                   + (if t ! (i + m) = t ! Suc i then 0
                      else (t ! (i + m) - x) / (t ! (i + m) - t ! Suc i) * r ! Suc i))
               [0..<maxi]"
proof (rule nth_equalityI)
  show "length (de_boor_step x t m maxi r) = length (map (\<lambda>i. (if t ! (i + m - 1) = t ! i then 0
                      else (x - t ! i) / (t ! (i + m - 1) - t ! i) * r ! i)
                   + (if t ! (i + m) = t ! Suc i then 0
                      else (t ! (i + m) - x) / (t ! (i + m) - t ! Suc i) * r ! Suc i))
               [0..<maxi])"
    using assms by (simp add: de_boor_step_def blend_def blend_right_def py_slice_def Let_def)
next
  fix i
  assume "i < length (de_boor_step x t m maxi r)"
  then have i: "i < maxi"
    using assms by (simp add: de_boor_step_def blend_def blend_right_def py_slice_def Let_def)
  have a: "i + (m - 1) = i + m - 1" using m by simp
  show "de_boor_step x t m maxi r ! i = map (\<lambda>i. (if t ! (i + m - 1) = t ! i then 0
                      else (x - t ! i) / (t ! (i + m - 1) - t ! i) * r ! i)
                   + (if t ! (i + m) = t ! Suc i then 0
                      else (t ! (i + m) - x) / (t ! (i + m) - t ! Suc i) * r ! Suc i))
               [0..<maxi] ! i"
    using i assms
    by (simp add: de_boor_step_def blend_def blend_right_def py_slice_def Let_def a add.commute)
qed

lemma blend_weights_sum:
  fixes a b x :: real
  assumes "a < b"
  shows "(x - a) / (b - a) + (b - x) / (b - a) = 1"
proof -
  have "(x - a) / (b - a) + (b - x) / (b - a) = ((x - a) + (b - x)) / (b - a)"
    by (rule add_divide_distrib [symmetric])
  also have "\<dots> = 1" using assms by simp
  finally show ?thesis .
qed

lemma de_boor_step_sum:
  fixes t :: "real list"
  assumes st: "sorted t" and lt: "length t = maxi + m" and lr: "length r = Suc maxi"
    and m: "2 \<le> m" and j1: "m - 1 \<le> j" and j2: "j < maxi" and tj: "t ! j < t ! Suc j"
    and supp: "\<And>i. i \<le> maxi \<Longrightarrow> r ! i \<noteq> 0 \<Longrightarrow> j + 2 \<le> i + m \<and> i \<le> j"
    and sum: "sum_list r = 1"
  shows "sum_list (de_boor_step x t m maxi r) = 1"
    and "\<And>i. i < maxi \<Longrightarrow> de_boor_step x t m maxi r ! i \<noteq> 0 \<Longrightarrow> j + 1 \<le> i + m \<and> i \<le> j"
proof -
  define A where "A i = (if t ! (i + m - 1) = t ! i then 0
                         else (x - t ! i) / (t ! (i + m - 1) - t ! i))" for i
  define B where "B i = (if t ! (i + m) = t ! Suc i then 0
                         else (t ! (i + m) - x) / (t ! (i + m) - t ! Suc i))" for i
  have m1: "1 \<le> m" using m by simp
  have step: "de_boor_step x t m maxi r = map (\<lambda>i. A i * r ! i + B i * r ! Suc i) [0..<maxi]"
    unfolding de_boor_step_index [OF lt lr m1, of x] A_def B_def by simp
  have r0: "r ! 0 = 0"
  proof (rule ccontr)
    assume "r ! 0 \<noteq> 0"
    from supp [OF _ this] have "j + 2 \<le> m" by simp
    with j1 show False by simp
  qed
  have rmax: "r ! maxi = 0"
  proof (rule ccontr)
    assume "r ! maxi \<noteq> 0"
    from supp [OF _ this] have "maxi \<le> j" by simp
    with j2 show False by simp
  qed
  have key: "(A k + B (k - 1)) * r ! k = r ! k" if k: "1 \<le> k" "k < maxi" for k
  proof (cases "r ! k = 0")
    case True
    then show ?thesis by simp
  next
    case False
    from supp [OF _ False] k have b: "j + 2 \<le> k + m" "k \<le> j" by simp_all
    have "t ! k \<le> t ! j"
      using st b(2) j2 lt by (intro sorted_nth_mono) simp_all
    moreover have "t ! Suc j \<le> t ! (k + m - 1)"
      using st b(1) k lt by (intro sorted_nth_mono) simp_all
    ultimately have d: "t ! k < t ! (k + m - 1)" using tj by simp
    have e: "k - 1 + m = k + m - 1" "Suc (k - 1) = k" using k by simp_all
    have "A k + B (k - 1) = 1"
      using d blend_weights_sum [OF d, of x] unfolding A_def B_def e by simp
    then show ?thesis by simp
  qed
  have mx: "1 \<le> maxi" using j2 by simp
  have "sum_list (de_boor_step x t m maxi r)
          = (\<Sum>i = 0..<maxi. A i * r ! i) + (\<Sum>i = 0..<maxi. B i * r ! Suc i)"
    unfolding step by (simp add: interv_sum_list_conv_sum_set_nat sum.distrib)
  also have "(\<Sum>i = 0..<maxi. A i * r ! i) = (\<Sum>k = Suc 0..<maxi. A k * r ! k)"
    using mx r0 by (simp add: sum.atLeast_Suc_lessThan)
  also have "(\<Sum>i = 0..<maxi. B i * r ! Suc i) = (\<Sum>k = Suc 0..<Suc maxi. B (k - 1) * r ! k)"
    by (simp only: sum.shift_bounds_Suc_ivl diff_Suc_1)
  also have "\<dots> = (\<Sum>k = Suc 0..<maxi. B (k - 1) * r ! k) + B (maxi - 1) * r ! maxi"
    using mx by (intro sum.atLeastLessThan_Suc) simp
  also have "\<dots> = (\<Sum>k = Suc 0..<maxi. B (k - 1) * r ! k)"
    using rmax by simp
  also have "(\<Sum>k = Suc 0..<maxi. A k * r ! k) + (\<Sum>k = Suc 0..<maxi. B (k - 1) * r ! k)
               = (\<Sum>k = Suc 0..<maxi. (A k + B (k - 1)) * r ! k)"
    by (simp add: sum.distrib algebra_simps)
  also have "\<dots> = (\<Sum>k = Suc 0..<maxi. r ! k)"
  proof (rule sum.cong)
    fix k
    assume "k \<in> {Suc 0..<maxi}"
    then have "1 \<le> k" "k < maxi" by simp_all
    then show "(A k + B (k - 1)) * r ! k = r ! k" by (rule key)
  qed (rule refl)
  also have "\<dots> = (\<Sum>k = 0..<Suc maxi. r ! k)"
    using mx r0 rmax by (simp add: sum.atLeast_Suc_lessThan)
  also have "\<dots> = sum_list r"
    using lr by (simp add: sum_list_sum_nth)
  finally show "sum_list (de_boor_step x t m maxi r) = 1" using sum by simp
next
  fix i
  assume i: "i < maxi" and nz: "de_boor_step x t m maxi r ! i \<noteq> 0"
  have m1: "1 \<le> m" using m by simp
  have "de_boor_step x t m maxi r ! i
          = (if t ! (i + m - 1) = t ! i then 0
             else (x - t ! i) / (t ! (i + m - 1) - t ! i) * r ! i)
          + (if t ! (i + m) = t ! Suc i then 0
             else (t ! (i + m) - x) / (t ! (i + m) - t ! Suc i) * r ! Suc i)"
    unfolding de_boor_step_index [OF lt lr m1, of x] using i by simp
  with nz have "r ! i \<noteq> 0 \<or> r ! Suc i \<noteq> 0" by (auto split: if_splits)
  then show "j + 1 \<le> i + m \<and> i \<le> j"
  proof
    assume "r ! i \<noteq> 0"
    from supp [OF _ this] i show ?thesis by simp
  next
    assume "r ! Suc i \<noteq> 0"
    from supp [OF _ this] i show ?thesis by simp
  qed
qed

lemma length_de_boor_step:
  "length t = maxi + m \<Longrightarrow> length r = Suc maxi \<Longrightarrow> 1 \<le> m
     \<Longrightarrow> length (de_boor_step x t m maxi r) = maxi"
  by (simp add: de_boor_step_index)

lemma de_boor_loop_sum:
  fixes t :: "real list"
  assumes st: "sorted t" and j1: "order - 1 \<le> j" and j2: "j + order < length t"
    and tj: "t ! j < t ! Suc j"
  shows "2 \<le> m \<Longrightarrow> m \<le> Suc order \<Longrightarrow> maxi + m = Suc (length t) \<Longrightarrow> length r = maxi
     \<Longrightarrow> (\<And>i. i < maxi \<Longrightarrow> r ! i \<noteq> 0 \<Longrightarrow> j + 2 \<le> i + m \<and> i \<le> j)
     \<Longrightarrow> sum_list r = 1
     \<Longrightarrow> sum_list (de_boor_loop x t [m..<Suc order] maxi r) = 1
         \<and> length (de_boor_loop x t [m..<Suc order] maxi r) = length t - order"
proof (induction "Suc order - m" arbitrary: m maxi r)
  case 0
  then have "m = Suc order" by simp
  with 0 show ?case by simp
next
  case (Suc n)
  from Suc.hyps(2) have mo: "m \<le> order" by simp
  let ?maxi = "maxi - 1"
  let ?r = "de_boor_step x t m ?maxi r"
  have mx: "1 \<le> maxi" using Suc.prems(3) mo j2 by simp
  have lt: "length t = ?maxi + m" using Suc.prems(3) mx by simp
  have lr: "length r = Suc ?maxi" using Suc.prems(4) mx by simp
  have a1: "m - 1 \<le> j" using mo j1 by simp
  have a2: "j < ?maxi" using Suc.prems(3) mo j2 by simp
  have supp: "j + 2 \<le> i + m \<and> i \<le> j" if "i \<le> ?maxi" "r ! i \<noteq> 0" for i
    using Suc.prems(5) [of i] that mx by simp
  have s1: "sum_list ?r = 1"
  proof (rule de_boor_step_sum(1)
               [where x = x and j = j, OF st lt lr Suc.prems(1) a1 a2 tj _ Suc.prems(6)])
    fix i
    assume "i \<le> ?maxi" "r ! i \<noteq> 0"
    then show "j + 2 \<le> i + m \<and> i \<le> j" by (rule supp)
  qed
  have len: "length ?r = ?maxi"
    using lt lr Suc.prems(1) by (intro length_de_boor_step) simp_all
  have supp': "j + 2 \<le> i + Suc m \<and> i \<le> j" if "i < ?maxi" "?r ! i \<noteq> 0" for i
  proof -
    have "j + 1 \<le> i + m \<and> i \<le> j"
    proof (rule de_boor_step_sum(2)
                 [where x = x and j = j, OF st lt lr Suc.prems(1) a1 a2 tj _ Suc.prems(6) that])
      fix i
      assume "i \<le> ?maxi" "r ! i \<noteq> 0"
      then show "j + 2 \<le> i + m \<and> i \<le> j" by (rule supp)
    qed
    then show ?thesis by simp
  qed
  have "sum_list (de_boor_loop x t [Suc m..<Suc order] ?maxi ?r) = 1
         \<and> length (de_boor_loop x t [Suc m..<Suc order] ?maxi ?r) = length t - order"
  proof (rule Suc.hyps(1))
    show "n = Suc order - Suc m" using Suc.hyps(2) by simp
    show "2 \<le> Suc m" using Suc.prems(1) by simp
    show "Suc m \<le> Suc order" using mo by simp
    show "?maxi + Suc m = Suc (length t)" using Suc.prems(3) mx by simp
    show "length ?r = ?maxi" by (rule len)
    show "sum_list ?r = 1" by (rule s1)
    show "\<And>i. i < ?maxi \<Longrightarrow> ?r ! i \<noteq> 0 \<Longrightarrow> j + 2 \<le> i + Suc m \<and> i \<le> j"
      by (rule supp')
  qed
  moreover have "[m..<Suc order] = m # [Suc m..<Suc order]"
    using mo by (simp add: upt_conv_Cons)
  ultimately show ?case by simp
qed

lemma haar_bases_Cons:
  "haar_bases x (a # b # rest)
     = ((if a \<le> x then 1 else 0) * (if x < b then 1 else 0)) # haar_bases x (b # rest)"
  by (simp add: haar_bases_def)

lemma haar_bases_single: "haar_bases x [a] = []"
  by (simp add: haar_bases_def)

lemma haar_bases_above:
  "(\<And>a. a \<in> set t \<Longrightarrow> a \<le> x) \<Longrightarrow> haar_bases x t = replicate (length t - 1) 0"
proof (induction t rule: induct_list012)
  case (3 a b rest)
  have "b \<le> x" using 3(3) by simp
  moreover have "haar_bases x (b # rest) = replicate (length (b # rest) - 1) 0"
    using 3(3) by (intro 3(2)) simp
  ultimately show ?case by (simp add: haar_bases_Cons)
qed (simp_all add: haar_bases_def)

lemma haar_bases_below:
  "(\<And>a. a \<in> set t \<Longrightarrow> x < a) \<Longrightarrow> haar_bases x t = replicate (length t - 1) 0"
proof (induction t rule: induct_list012)
  case (3 a b rest)
  have "x < a" using 3(3) by simp
  moreover have "haar_bases x (b # rest) = replicate (length (b # rest) - 1) 0"
    using 3(3) by (intro 3(2)) simp
  ultimately show ?case by (simp add: haar_bases_Cons)
qed (simp_all add: haar_bases_def)

lemma haar_bases_interior:
  "sorted t \<Longrightarrow> t \<noteq> [] \<Longrightarrow> hd t \<le> x \<Longrightarrow> x < last t
     \<Longrightarrow> \<exists>j. Suc j < length t \<and> t ! j \<le> x \<and> x < t ! Suc j
            \<and> haar_bases x t = (replicate (length t - 1) 0)[j := 1]"
proof (induction t rule: induct_list012)
  case 1
  then show ?case by simp
next
  case (2 a)
  then show ?case by simp
next
  case (3 a b rest)
  show ?case
  proof (cases "x < b")
    case True
    have "\<And>c. c \<in> set (b # rest) \<Longrightarrow> x < c"
      using 3(3) True by auto
    then have "haar_bases x (b # rest) = replicate (length rest) 0"
      using haar_bases_below [of "b # rest" x] by simp
    with True 3(5) have "haar_bases x (a # b # rest) = (replicate (length (a # b # rest) - 1) 0)[0 := 1]"
      by (simp add: haar_bases_Cons)
    with True 3(5) show ?thesis by (intro exI [of _ 0]) simp
  next
    case False
    then have bx: "b \<le> x" by simp
    from 3(6) bx have ne: "rest \<noteq> []" by auto
    have "\<exists>j. Suc j < length (b # rest) \<and> (b # rest) ! j \<le> x \<and> x < (b # rest) ! Suc j
            \<and> haar_bases x (b # rest) = (replicate (length (b # rest) - 1) 0)[j := 1]"
      using 3(3,6) bx ne by (intro 3(2)) simp_all
    then obtain j where j: "Suc j < length (b # rest)" "(b # rest) ! j \<le> x"
        "x < (b # rest) ! Suc j"
        "haar_bases x (b # rest) = (replicate (length (b # rest) - 1) 0)[j := 1]"
      by blast
    have "haar_bases x (a # b # rest) = (replicate (length (a # b # rest) - 1) 0)[Suc j := 1]"
      using False j(4) by (simp add: haar_bases_Cons)
    with j show ?thesis by (intro exI [of _ "Suc j"]) simp
  qed
qed

lemma unit_row:
  fixes j n :: nat
  assumes "j < n"
  shows "sum_list ((replicate n (0::real))[j := 1]) = 1"
    and "\<And>i. i < n \<Longrightarrow> (replicate n (0::real))[j := 1] ! i \<noteq> 0 \<Longrightarrow> i = j"
proof -
  have z: "sum_list (replicate k (0::real)) = 0" for k by (induction k) simp_all
  show "sum_list ((replicate n (0::real))[j := 1]) = 1"
    using assms
  proof (induction n arbitrary: j)
    case 0
    then show ?case by simp
  next
    case (Suc n)
    then show ?case by (cases j) (simp_all add: z)
  qed
next
  fix i
  assume "i < n" "(replicate n (0::real))[j := 1] ! i \<noteq> 0"
  then show "i = j" using assms by (cases "i = j") simp_all
qed

lemma fold_min_props:
  fixes a :: real
  shows "fold min xs a \<le> a \<and> (\<forall>b \<in> set xs. fold min xs a \<le> b) \<and> fold min xs a \<in> set (a # xs)"
proof (induction xs arbitrary: a)
  case Nil
  show ?case by simp
next
  case (Cons c xs)
  from Cons [of "min c a"] show ?case by (auto simp: min_def split: if_splits)
qed

lemma fold_max_props:
  fixes a :: real
  shows "a \<le> fold max xs a \<and> (\<forall>b \<in> set xs. b \<le> fold max xs a) \<and> fold max xs a \<in> set (a # xs)"
proof (induction xs arbitrary: a)
  case Nil
  show ?case by simp
next
  case (Cons c xs)
  from Cons [of "max c a"] show ?case by (auto simp: max_def split: if_splits)
qed

lemma np_min_props:
  assumes "ks \<noteq> []"
  shows "np_min ks \<in> set ks" and "\<And>a. a \<in> set ks \<Longrightarrow> np_min ks \<le> a"
proof -
  obtain k rest where ks: "ks = k # rest" using assms by (cases ks) auto
  from fold_min_props [of rest k] show "np_min ks \<in> set ks"
    by (simp add: np_min_def ks)
  fix a
  assume "a \<in> set ks"
  with fold_min_props [of rest k] show "np_min ks \<le> a"
    by (auto simp: np_min_def ks)
qed

lemma np_max_props:
  assumes "ks \<noteq> []"
  shows "np_max ks \<in> set ks" and "\<And>a. a \<in> set ks \<Longrightarrow> a \<le> np_max ks"
proof -
  obtain k rest where ks: "ks = k # rest" using assms by (cases ks) auto
  from fold_max_props [of k rest] show "np_max ks \<in> set ks"
    by (simp add: np_max_def ks)
  fix a
  assume "a \<in> set ks"
  with fold_max_props [of k rest] show "a \<le> np_max ks"
    by (auto simp: np_max_def ks)
qed

lemma hd_sort_np_min:
  assumes "ks \<noteq> []"
  shows "hd (sort ks) = np_min ks"
proof -
  have ne: "sort ks \<noteq> []" using assms by (metis length_0_conv length_sort)
  then obtain h rest where s: "sort ks = h # rest" by (cases "sort ks") auto
  have srt: "sorted (h # rest)" using sorted_sort [of ks] s by simp
  have hs: "h \<in> set ks" using s by (metis list.set_intros(1) set_sort)
  have "np_min ks \<in> set (h # rest)" using np_min_props(1) [OF assms] s by (metis set_sort)
  with srt have "h \<le> np_min ks" by auto
  moreover have "np_min ks \<le> h" using np_min_props(2) [OF assms hs] .
  ultimately show ?thesis using s by simp
qed

lemma sorted_le_last:
  fixes xs :: "real list"
  assumes "sorted xs" and "a \<in> set xs"
  shows "a \<le> last xs"
proof -
  from assms(2) obtain i where i: "i < length xs" "xs ! i = a" by (auto simp: in_set_conv_nth)
  then have ne: "xs \<noteq> []" by auto
  have "xs ! i \<le> xs ! (length xs - 1)"
    using assms(1) i(1) by (intro sorted_nth_mono) simp_all
  with i ne show ?thesis by (simp add: last_conv_nth)
qed

lemma last_sort_np_max:
  assumes "ks \<noteq> []"
  shows "last (sort ks) = np_max ks"
proof -
  have ne: "sort ks \<noteq> []" using assms by (metis length_0_conv length_sort)
  have "np_max ks \<in> set (sort ks)" using np_max_props(1) [OF assms] by simp
  then have "np_max ks \<le> last (sort ks)" by (intro sorted_le_last) simp_all
  moreover have "last (sort ks) \<in> set ks" using ne by (metis last_in_set set_sort)
  then have "last (sort ks) \<le> np_max ks" by (rule np_max_props(2) [OF assms])
  ultimately show ?thesis by simp
qed

lemma aug_knots_props:
  assumes ne: "ks \<noteq> []" and o: "1 \<le> order"
  shows "length (aug_knots ks order) = length ks + 2 * (order - 1)"
    and "sorted (aug_knots ks order)"
    and "\<And>i. i < order \<Longrightarrow> aug_knots ks order ! i = np_min ks"
    and "\<And>i. length (aug_knots ks order) - order \<le> i \<Longrightarrow> i < length (aug_knots ks order)
           \<Longrightarrow> aug_knots ks order ! i = np_max ks"
proof -
  let ?p = "order - 1"
  let ?s = "sort ks"
  have ls: "length ?s = length ks" by simp
  have K: "1 \<le> length ks" using ne by (cases ks) auto
  have mn: "np_min ks \<le> a" and mx: "a \<le> np_max ks" if "a \<in> set ?s" for a
    using that np_min_props(2) [OF ne, of a] np_max_props(2) [OF ne, of a] by simp_all
  have mm: "np_min ks \<le> np_max ks"
    using np_min_props(1) [OF ne] np_max_props(2) [OF ne] by blast
  show len: "length (aug_knots ks order) = length ks + 2 * (order - 1)"
    by (simp add: aug_knots_def)
  show "sorted (aug_knots ks order)"
    using mn mx mm by (auto simp: aug_knots_def sorted_append)
  show "aug_knots ks order ! i = np_min ks" if "i < order" for i
  proof (cases "i < ?p")
    case True
    then show ?thesis by (simp add: aug_knots_def nth_append)
  next
    case False
    with that have i: "i = ?p" by simp
    have sne: "?s \<noteq> []" using ne by (metis length_0_conv length_sort)
    then have "?s ! 0 = hd ?s" by (simp add: hd_conv_nth)
    then show ?thesis using K i ne hd_sort_np_min [OF ne]
      by (simp add: aug_knots_def nth_append)
  qed
  show "aug_knots ks order ! i = np_max ks"
    if "length (aug_knots ks order) - order \<le> i" "i < length (aug_knots ks order)" for i
  proof (cases "?p + length ks \<le> i")
    case True
    have n1: "\<not> i < ?p" and n2: "\<not> i - ?p < length ?s" and n3: "i - ?p - length ks < ?p"
      using True that(2) unfolding len by simp_all
    have "aug_knots ks order ! i = (?s @ replicate ?p (np_max ks)) ! (i - ?p)"
      unfolding aug_knots_def nth_append using n1 by simp
    also have "\<dots> = replicate ?p (np_max ks) ! (i - ?p - length ?s)"
      unfolding nth_append using n2 by simp
    also have "\<dots> = np_max ks"
      using n3 by simp
    finally show ?thesis .
  next
    case False
    with that(1) o K have i: "i = ?p + length ks - 1" unfolding len by simp
    have sne: "?s \<noteq> []" using ne by (metis length_0_conv length_sort)
    then have l: "?s ! (length ks - 1) = last ?s" by (simp add: last_conv_nth)
    have n1: "\<not> i < ?p" and n2: "i - ?p < length ?s" and n3: "i - ?p = length ks - 1"
      using i K by simp_all
    have "aug_knots ks order ! i = (?s @ replicate ?p (np_max ks)) ! (i - ?p)"
      unfolding aug_knots_def nth_append using n1 by simp
    also have "\<dots> = ?s ! (i - ?p)"
      unfolding nth_append using n2 by simp
    also have "\<dots> = np_max ks"
      unfolding n3 l by (rule last_sort_np_max [OF ne])
    finally show ?thesis .
  qed
qed

lemma row_from_unit:
  assumes ne: "ks \<noteq> []" and o: "1 \<le> order"
    and hi: "haar_init x (aug_knots ks order) order
               = Inr ((replicate (length (aug_knots ks order) - 1) 0)[j := 1])"
    and j1: "order - 1 \<le> j" and j2: "j + order < length (aug_knots ks order)"
    and tj: "aug_knots ks order ! j < aug_knots ks order ! Suc j"
  shows "\<exists>r. b_spline_row x ks order = Inr r \<and> sum_list r = 1
             \<and> length r = length ks + order - 2"
proof -
  let ?t = "aug_knots ks order"
  let ?u = "(replicate (length ?t - 1) (0::real))[j := 1]"
  have jl: "j < length ?t - 1" using j2 o by simp
  have "sum_list (de_boor_loop x ?t [2..<Suc order] (length ?t - 1) ?u) = 1
         \<and> length (de_boor_loop x ?t [2..<Suc order] (length ?t - 1) ?u) = length ?t - order"
  proof (rule de_boor_loop_sum [OF aug_knots_props(2) [OF ne o] j1 j2 tj])
    show "2 \<le> (2::nat)" by simp
    show "2 \<le> Suc order" using o by simp
    show "length ?t - 1 + 2 = Suc (length ?t)" using j2 by simp
    show "length ?u = length ?t - 1" by simp
    show "sum_list ?u = 1" by (rule unit_row(1) [OF jl])
    fix i
    assume "i < length ?t - 1" "?u ! i \<noteq> 0"
    then have "i = j" by (rule unit_row(2) [OF jl])
    then show "j + 2 \<le> i + 2 \<and> i \<le> j" by simp
  qed
  moreover have "length ?t - order = length ks + order - 2"
    using o unfolding aug_knots_props(1) [OF ne o] by simp
  moreover have "b_spline_row x ks order
                   = Inr (de_boor_loop x ?t [2..<Suc order] (length ?t - 1) ?u)"
    using ne o hi by (simp add: b_spline_row_def Let_def)
  ultimately show ?thesis by simp
qed

lemma aug_knots_ends:
  assumes ne: "ks \<noteq> []" and o: "1 \<le> order"
  shows "aug_knots ks order \<noteq> []" and "hd (aug_knots ks order) = np_min ks"
    and "last (aug_knots ks order) = np_max ks"
proof -
  let ?t = "aug_knots ks order"
  have l: "1 \<le> length ?t" using ne unfolding aug_knots_props(1) [OF ne o] by (cases ks) auto
  then show t: "?t \<noteq> []" by auto
  have "?t ! 0 = np_min ks" using o by (intro aug_knots_props(3) [OF ne o]) simp
  with t show "hd ?t = np_min ks" by (simp add: hd_conv_nth)
  have "?t ! (length ?t - 1) = np_max ks"
    using l o by (intro aug_knots_props(4) [OF ne o]) simp_all
  with t show "last ?t = np_max ks" by (simp add: last_conv_nth)
qed

lemma partition_of_unity_interior:
  assumes ne: "ks \<noteq> []" and o: "1 \<le> order"
    and fits: "order < length (aug_knots ks order) - 1"
    and lo: "np_min ks \<le> x" and hi: "x < np_max ks"
  shows "\<exists>r. b_spline_row x ks order = Inr r \<and> sum_list r = 1
             \<and> length r = length ks + order - 2"
proof -
  let ?t = "aug_knots ks order"
  note ends = aug_knots_ends [OF ne o]
  note props = aug_knots_props [OF ne o]
  from haar_bases_interior [OF props(2) ends(1), of x] lo hi ends
  obtain j where j: "Suc j < length ?t" "?t ! j \<le> x" "x < ?t ! Suc j"
      "haar_bases x ?t = (replicate (length ?t - 1) 0)[j := 1]"
    by auto
  have init: "haar_init x ?t order = Inr ((replicate (length ?t - 1) 0)[j := 1])"
    using lo hi ends j(4) fits by (simp add: haar_init_def Let_def not_le)
  have j1: "order - 1 \<le> j"
  proof (rule ccontr)
    assume "\<not> order - 1 \<le> j"
    then have "Suc j < order" by simp
    from props(3) [OF this] j(3) lo show False by simp
  qed
  have j2: "j + order < length ?t"
  proof (rule ccontr)
    assume "\<not> j + order < length ?t"
    then have "length ?t - order \<le> j" by simp
    from props(4) [OF this] j(1,2) hi show False by simp
  qed
  have tj: "?t ! j < ?t ! Suc j" using j(2,3) by simp
  show ?thesis by (rule row_from_unit [OF ne o init j1 j2 tj])
qed

lemma haar_init_at_or_beyond_maximum:
  assumes K: "2 \<le> length ks" and d: "distinct ks" and o: "1 \<le> order"
    and fits: "order < length (aug_knots ks order) - 1"
    and hi: "np_max ks \<le> x"
  shows "haar_init x (aug_knots ks order) order
           = Inr ((replicate (length (aug_knots ks order) - 1) 0)
                    [length (aug_knots ks order) - 1 - order := 1])"
    and "aug_knots ks order ! (length (aug_knots ks order) - 1 - order)
           < aug_knots ks order ! Suc (length (aug_knots ks order) - 1 - order)"
    and "aug_knots ks order ! Suc (length (aug_knots ks order) - 1 - order) = np_max ks"
proof -
  have ne: "ks \<noteq> []" using K by auto
  let ?t = "aug_knots ks order"
  let ?s = "sort ks"
  let ?p = "order - 1"
  define j where "j = length ?t - 1 - order"
  note ends = aug_knots_ends [OF ne o]
  note props = aug_knots_props [OF ne o]
  have len: "length ?t = length ks + 2 * ?p" by (rule props(1))
  have mm: "np_min ks \<le> np_max ks"
    using np_min_props(1) [OF ne] np_max_props(2) [OF ne] by blast
  have above: "a \<le> x" if "a \<in> set ?t" for a
    using sorted_le_last [OF props(2) that] ends(3) hi by simp
  have zeros: "haar_bases x ?t = replicate (length ?t - 1) 0"
    by (rule haar_bases_above) (rule above)
  have n: "\<not> length (haar_bases x ?t) < order"
    using K o unfolding length_haar_bases len by simp
  show "haar_init x ?t order = Inr ((replicate (length ?t - 1) 0)[length ?t - 1 - order := 1])"
    using hi mm ends n zeros fits by (simp add: haar_init_def Let_def not_less)
  have sj: "Suc j = length ?t - order" using K o unfolding j_def len by simp
  have top: "?t ! Suc j = np_max ks"
    unfolding sj using K o by (intro props(4)) (simp_all add: len)
  have n1: "\<not> j < ?p" and n2: "j - ?p < length ?s" and n3: "j - ?p = length ks - 2"
    using K o unfolding j_def len by simp_all
  have "?t ! j = (?s @ replicate ?p (np_max ks)) ! (j - ?p)"
    unfolding aug_knots_def nth_append using n1 by simp
  also have "\<dots> = ?s ! (length ks - 2)"
    unfolding nth_append using n2 n3 by simp
  finally have below: "?t ! j = ?s ! (length ks - 2)" .
  have sw: "sorted_wrt (<) ?s" using d by (simp add: strict_sorted_iff)
  have "?s ! (length ks - 2) < ?s ! (length ks - 1)"
    by (rule sorted_wrt_nth_less [OF sw]) (use K in simp_all)
  moreover have "?s ! (length ks - 1) = np_max ks"
  proof -
    have "?s \<noteq> []" using ne by (metis length_0_conv length_sort)
    then have "?s ! (length ks - 1) = last ?s" by (simp add: last_conv_nth)
    then show ?thesis using last_sort_np_max [OF ne] by simp
  qed
  ultimately have "?t ! j < ?t ! Suc j" using below top by simp
  then show "?t ! (length ?t - 1 - order) < ?t ! Suc (length ?t - 1 - order)"
    unfolding j_def .
  show "?t ! Suc (length ?t - 1 - order) = np_max ks"
    using top unfolding j_def .
qed

lemma partition_of_unity_upper:
  assumes K: "2 \<le> length ks" and d: "distinct ks" and o: "1 \<le> order"
    and fits: "order < length (aug_knots ks order) - 1"
    and hi: "np_max ks \<le> x"
  shows "\<exists>r. b_spline_row x ks order = Inr r \<and> sum_list r = 1
             \<and> length r = length ks + order - 2"
proof -
  have ne: "ks \<noteq> []" using K by auto
  let ?t = "aug_knots ks order"
  note up = haar_init_at_or_beyond_maximum [OF K d o fits hi]
  have len: "length ?t = length ks + 2 * (order - 1)" by (rule aug_knots_props(1) [OF ne o])
  have j1: "order - 1 \<le> length ?t - 1 - order" using K o unfolding len by simp
  have j2: "length ?t - 1 - order + order < length ?t" using K o unfolding len by simp
  show ?thesis by (rule row_from_unit [OF ne o up(1) j1 j2 up(2)])
qed

text \<open>
  Below the smallest knot line 31 always writes column \<open>order\<close>, while the first interval
  of positive width is column \<open>order - 1\<close>.
\<close>

lemma haar_init_below_minimum:
  assumes K: "2 \<le> length ks" and d: "distinct ks" and o: "1 \<le> order"
    and lo: "x < np_min ks" and fits: "order < length (aug_knots ks order) - 1"
  shows "haar_init x (aug_knots ks order) order
           = Inr ((replicate (length (aug_knots ks order) - 1) 0)[order := 1])"
    and "aug_knots ks order ! (order - 1) < aug_knots ks order ! order"
proof -
  have ne: "ks \<noteq> []" using K by auto
  let ?t = "aug_knots ks order"
  let ?s = "sort ks"
  let ?p = "order - 1"
  note ends = aug_knots_ends [OF ne o]
  note props = aug_knots_props [OF ne o]
  have len: "length ?t = length ks + 2 * ?p" by (rule props(1))
  have mm: "np_min ks \<le> np_max ks"
    using np_min_props(1) [OF ne] np_max_props(2) [OF ne] by blast
  have below: "x < a" if "a \<in> set ?t" for a
  proof -
    from that obtain i where i: "i < length ?t" "?t ! i = a" by (auto simp: in_set_conv_nth)
    have "?t ! 0 \<le> ?t ! i" using props(2) i(1) by (intro sorted_nth_mono) simp_all
    moreover have "?t ! 0 = np_min ks" using o by (intro props(3)) simp
    ultimately show ?thesis using lo i(2) by simp
  qed
  have zeros: "haar_bases x ?t = replicate (length ?t - 1) 0"
    by (rule haar_bases_below) (rule below)
  have nl: "\<not> last ?t \<le> x" using ends(3) lo mm by simp
  show "haar_init x ?t order = Inr ((replicate (length ?t - 1) 0)[order := 1])"
    using nl lo ends(2) zeros fits by (simp add: haar_init_def Let_def length_haar_bases)
  have n1: "\<not> order < ?p" and n2: "order - ?p < length ?s" and n3: "order - ?p = 1"
    using K o by simp_all
  have "?t ! order = (?s @ replicate ?p (np_max ks)) ! (order - ?p)"
    unfolding aug_knots_def nth_append using n1 by simp
  also have "\<dots> = ?s ! 1"
    unfolding nth_append using n2 n3 by simp
  finally have second: "?t ! order = ?s ! 1" .
  have "?t ! ?p = np_min ks" using o by (intro props(3)) simp
  moreover have "?s ! 0 = np_min ks"
  proof -
    have "?s \<noteq> []" using ne by (metis length_0_conv length_sort)
    then have "?s ! 0 = hd ?s" by (simp add: hd_conv_nth)
    then show ?thesis using hd_sort_np_min [OF ne] by simp
  qed
  moreover have sw: "sorted_wrt (<) ?s" using d by (simp add: strict_sorted_iff)
  have "?s ! 0 < ?s ! 1"
    by (rule sorted_wrt_nth_less [OF sw]) (use K in simp_all)
  ultimately show "?t ! (order - 1) < ?t ! order" using second by simp
qed

lemma partition_of_unity_from_minimum:
  assumes "2 \<le> length ks" and "distinct ks" and "1 \<le> order"
    and "order < length (aug_knots ks order) - 1" and "np_min ks \<le> x"
  shows "\<exists>r. b_spline_row x ks order = Inr r \<and> sum_list r = 1
             \<and> length r = length ks + order - 2"
proof (cases "x < np_max ks")
  case True
  have "ks \<noteq> []" using assms(1) by auto
  then show ?thesis using assms(3,4,5) True by (rule partition_of_unity_interior)
next
  case False
  then have "np_max ks \<le> x" by simp
  with assms(1-4) show ?thesis by (rule partition_of_unity_upper)
qed

text \<open>
  When column \<open>order\<close> does not exist, which for at least two knots happens exactly for
  two knots and spline order 1, every row raises in line 31.
\<close>

lemma b_spline_row_index_error:
  assumes "ks \<noteq> []" and "1 \<le> order" and "length (aug_knots ks order) - 1 \<le> order"
  shows "b_spline_row x ks order = Inl IndexError"
  using assms by (simp add: b_spline_row_def haar_init_def Let_def length_haar_bases)

lemma two_knots_order_one_raises: "b_spline_basis xs [a, b] 1 = Inl IndexError"
  by (simp add: b_spline_basis_def aug_knots_def)

end
